theory Spec2Isabelle
  imports Main "HOL-Library.Word"
begin

unbundle bit_operations_syntax

section \<open>RADIUS dissector (epan/dissectors/packet-radius.c)\<close>

text \<open>
  A shallow embedding of the AVP walker \<open>dissect_attribute_value_pairs\<close>, the value
  decoders \<open>radius_integer\<close> ... \<open>radius_ifid\<close>, the attribute decryption
  \<open>radius_decrypt_avp\<close> and the registration function
  \<open>radius_register_avp_dissector\<close>.

  C's \<open>int\<close>/\<open>gint\<close> and \<open>guint\<close>/\<open>guint32\<close> values are modelled as
  \<open>int\<close> with the 32-bit wrap-around written out (\<open>gint\<close>, \<open>guint32\<close> below);
  bytes are \<open>8 word\<close>; the protocol tree built by the \<open>proto_tree_add_*\<close> and
  \<open>proto_item_append_text\<close> calls is a list of events in the order of the calls.
\<close>

subsection \<open>Machine integers\<close>

type_synonym guint8 = "8 word"
type_synonym gchar = "8 word"

definition guint32 :: "int \<Rightarrow> int" where
  "guint32 x = x mod 4294967296"

definition gint :: "int \<Rightarrow> int" where
  "gint x = (x + 2147483648) mod 4294967296 - 2147483648"

subsection \<open>The tvbuff accessors\<close>

text \<open>
  Modelled from the spec: the tvbuff library (epan/tvbuff.c) is not part of the source
  file. A tvbuff is the list of captured bytes; every accessor checks its range and
  throws when the range is not inside the buffer (the spec's truncated-packet condition).
  As in the library, an offset may equal the buffer length when no byte is read, a
  negative offset counts from the end, and a length of \<open>-1\<close> means ``to the end''.
\<close>

type_synonym tvbuff = "guint8 list"

datatype exn = BoundsError | DissectorException | NullFunctionCall

definition compute_offset_length :: "tvbuff \<Rightarrow> int \<Rightarrow> int \<Rightarrow> exn + (nat \<times> nat)" where
  "compute_offset_length tvb off len =
     (let n = int (length tvb) in
      if (if 0 \<le> off then n < off else n < - off) then Inl BoundsError
      else if len < -1 then Inl BoundsError
      else
        let abs_off = (if 0 \<le> off then off else n + off);
            abs_len = (if len = -1 then n - abs_off else len)
        in if abs_off + abs_len \<le> n then Inr (nat abs_off, nat abs_len)
           else Inl BoundsError)"

definition tvb_get_ptr :: "tvbuff \<Rightarrow> int \<Rightarrow> int \<Rightarrow> exn + guint8 list" where
  "tvb_get_ptr tvb off len =
     (case compute_offset_length tvb off len of
        Inl e \<Rightarrow> Inl e
      | Inr (a, l) \<Rightarrow> Inr (take l (drop a tvb)))"

fun be_uint :: "guint8 list \<Rightarrow> int" where
  "be_uint [] = 0"
| "be_uint (b # bs) = uint b * 256 ^ length bs + be_uint bs"

definition tvb_get_guint8 :: "tvbuff \<Rightarrow> int \<Rightarrow> exn + int" where
  "tvb_get_guint8 tvb off = map_sum id be_uint (tvb_get_ptr tvb off 1)"

definition tvb_get_ntohs :: "tvbuff \<Rightarrow> int \<Rightarrow> exn + int" where
  "tvb_get_ntohs tvb off = map_sum id be_uint (tvb_get_ptr tvb off 2)"

definition tvb_get_ntoh24 :: "tvbuff \<Rightarrow> int \<Rightarrow> exn + int" where
  "tvb_get_ntoh24 tvb off = map_sum id be_uint (tvb_get_ptr tvb off 3)"

definition tvb_get_ntohl :: "tvbuff \<Rightarrow> int \<Rightarrow> exn + int" where
  "tvb_get_ntohl tvb off = map_sum id be_uint (tvb_get_ptr tvb off 4)"

definition tvb_get_ntoh64 :: "tvbuff \<Rightarrow> int \<Rightarrow> exn + int" where
  "tvb_get_ntoh64 tvb off = map_sum id be_uint (tvb_get_ptr tvb off 8)"

definition tvb_memcpy :: "tvbuff \<Rightarrow> int \<Rightarrow> int \<Rightarrow> exn + guint8 list" where
  "tvb_memcpy tvb off len = tvb_get_ptr tvb off len"

definition tvb_new_subset :: "tvbuff \<Rightarrow> int \<Rightarrow> int \<Rightarrow> exn + tvbuff" where
  "tvb_new_subset tvb off len = tvb_get_ptr tvb off len"

definition tvb_bytes_exist :: "tvbuff \<Rightarrow> int \<Rightarrow> int \<Rightarrow> bool" where
  "tvb_bytes_exist tvb off len =
     (case compute_offset_length tvb off len of Inl e \<Rightarrow> False | Inr p \<Rightarrow> True)"

definition tvb_ensure_length_remaining :: "tvbuff \<Rightarrow> int \<Rightarrow> exn + nat" where
  "tvb_ensure_length_remaining tvb off =
     (case compute_offset_length tvb off (-1) of
        Inl e \<Rightarrow> Inl e
      | Inr (a, l) \<Rightarrow> if l = 0 then Inl BoundsError else Inr l)"

definition tvb_length :: "tvbuff \<Rightarrow> int" where
  "tvb_length tvb = int (length tvb)"

text \<open>
  \<open>proto_tree_add_item (tree, hf, tvb, offset, len, FALSE)\<close> adds a field covering
  \<open>len\<close> bytes at \<open>offset\<close>; it throws when they are not in the buffer.
\<close>

definition proto_tree_add_item :: "tvbuff \<Rightarrow> int \<Rightarrow> int \<Rightarrow> exn option" where
  "proto_tree_add_item tvb off len =
     (case compute_offset_length tvb off len of Inl e \<Rightarrow> Some e | Inr p \<Rightarrow> None)"

subsection \<open>Attribute decryption\<close>

text \<open>
  \<open>isprint\<close> in the C locale, and the output of \<open>sprintf (dest, "\\%03o", c)\<close> for a
  byte: a backslash and three octal digits.
\<close>

definition isprint :: "guint8 \<Rightarrow> bool" where
  "isprint c = (0x20 \<le> c \<and> c \<le> 0x7E)"

definition sprintf_octal :: "guint8 \<Rightarrow> gchar list" where
  "sprintf_octal c =
     [0x5C, 0x30 + (drop_bit 6 c AND 7), 0x30 + (drop_bit 3 c AND 7), 0x30 + (c AND 7)]"

text \<open>The first loop: \<open>for (i = 0; i < AUTHENTICATOR_LENGTH && i < length; i++)\<close>.\<close>

function decrypt_xor_loop ::
  "guint8 list \<Rightarrow> guint8 list \<Rightarrow> int \<Rightarrow> int \<Rightarrow> gchar list \<Rightarrow> int \<times> gchar list" where
  "decrypt_xor_loop pd digest i len dest =
     (if i < 16 \<and> i < len then
        let c = (pd ! nat i) XOR (digest ! nat i)
        in decrypt_xor_loop pd digest (i + 1) len
             (if isprint c then dest @ [c] else dest @ sprintf_octal c)
      else (i, dest))"
  by pat_completeness auto
termination
  by (relation "measure (\<lambda>(pd, digest, i, len, dest). nat (16 - i))") auto

declare decrypt_xor_loop.simps [simp del]

text \<open>The second loop: \<open>while (i < length)\<close>, the bytes after the sixteenth, unchanged.\<close>

function decrypt_copy_loop ::
  "guint8 list \<Rightarrow> int \<Rightarrow> int \<Rightarrow> gchar list \<Rightarrow> gchar list" where
  "decrypt_copy_loop pd i len dest =
     (if i < len then
        decrypt_copy_loop pd (i + 1) len
          (if isprint (pd ! nat i) then dest @ [pd ! nat i] else dest @ sprintf_octal (pd ! nat i))
      else dest)"
  by pat_completeness auto
termination
  by (relation "measure (\<lambda>(pd, i, len, dest). nat (len - i))") auto

declare decrypt_copy_loop.simps [simp del]

text \<open>
  \<open>radius_decrypt_avp (dest, tvb, offset, length)\<close>. The globals \<open>shared_secret\<close> and
  \<open>authenticator\<close> are arguments; \<open>md5\<close> stands for \<open>md5_init\<close>, \<open>md5_append\<close>
  (twice) and \<open>md5_finish\<close> of epan/crypt-md5.c, which is not part of the source file.
  The result is the string left in \<open>dest\<close>.
\<close>

definition radius_decrypt_avp ::
  "(guint8 list \<Rightarrow> guint8 list) \<Rightarrow> guint8 list \<Rightarrow> guint8 list \<Rightarrow> tvbuff \<Rightarrow> int \<Rightarrow> int
     \<Rightarrow> exn + gchar list" where
  "radius_decrypt_avp md5 shared_secret authenticator tvb off len =
     (let dest = [0x22];
          digest = md5 (shared_secret @ authenticator)
      in case tvb_get_ptr tvb off len of
           Inl e \<Rightarrow> Inl e
         | Inr pd \<Rightarrow>
             (case decrypt_xor_loop pd digest 0 len dest of
                (i, dest1) \<Rightarrow> Inr (decrypt_copy_loop pd i len dest1 @ [0x22])))"

text \<open>The contract of the decryption as the specification words it.\<close>

definition decrypt_output_byte :: "guint8 list \<Rightarrow> guint8 list \<Rightarrow> nat \<Rightarrow> guint8" where
  "decrypt_output_byte digest ciphertext i =
     (if i < 16 then (ciphertext ! i) XOR (digest ! i) else ciphertext ! i)"

definition render_byte :: "guint8 \<Rightarrow> gchar list" where
  "render_byte c = (if isprint c then [c] else sprintf_octal c)"

definition decrypt_spec :: "guint8 list \<Rightarrow> guint8 list \<Rightarrow> gchar list" where
  "decrypt_spec digest ciphertext =
     [0x22] @
     concat (map (\<lambda>i. render_byte (decrypt_output_byte digest ciphertext i))
               [0 ..< length ciphertext]) @
     [0x22]"

subsection \<open>The dictionary\<close>

text \<open>
  The value decoders are function pointers in the source (\<open>a->type == radius_integer\<close>);
  here each is a constructor and \<open>call_type\<close> below dispatches on it. A custom
  decoder (\<open>radius_avp_dissector_t\<close>) gets the value bytes as a tvbuff of their own and
  returns its display string, or throws as every dissector may.
\<close>

datatype radius_attr_dissector =
    Radius_integer | Radius_string | Radius_octets | Radius_ipaddr
  | Radius_ipv6addr | Radius_date | Radius_abinary | Radius_ifid

type_synonym radius_avp_dissector = "tvbuff \<Rightarrow> exn + string"

record radius_attr_info =
  name :: string
  code :: int
  encrypt :: bool
  tagged :: bool
  type :: "radius_attr_dissector option"
  dissector :: "radius_avp_dissector option"
  vs :: "(int \<times> string) list option"
  ett :: int
  hf :: int
  hf64 :: int
  hf_tag :: int
  hf_len :: int

text \<open>
  The fields \<open>name\<close>, \<open>code\<close> and \<open>attrs_by_id\<close> of \<open>radius_vendor_info_t\<close> carry
  the prefix \<open>vendor_\<close>: a record field is a constant of the theory.
\<close>

record radius_vendor_info =
  vendor_name :: string
  vendor_code :: int
  vendor_attrs_by_id :: "int \<rightharpoonup> radius_attr_info"

text \<open>
  \<open>vendors_by_name\<close> holds pointers to the vendor objects of \<open>vendors_by_id\<close>: it maps
  a name to the key of that object. \<open>attrs_by_name\<close> is never read or written by the
  functions modelled here and is left out.
\<close>

record radius_dictionary =
  attrs_by_id :: "int \<rightharpoonup> radius_attr_info"
  vendors_by_id :: "int \<rightharpoonup> radius_vendor_info"
  vendors_by_name :: "string \<rightharpoonup> int"

definition no_dictionary_entry :: radius_attr_info where
  "no_dictionary_entry =
     \<lparr> name = ''Unknown-Attribute'', code = 0, encrypt = False, tagged = False,
       type = Some Radius_octets, dissector = None, vs = None,
       ett = -1, hf = -1, hf64 = -1, hf_tag = -1, hf_len = -1 \<rparr>"

text \<open>
  The globals read while one packet is decoded: the dictionary, the shared secret (a C
  string, here its bytes), the authenticator and the MD5 function.
\<close>

record radius_env =
  dict :: radius_dictionary
  shared_secret :: "guint8 list"
  authenticator :: "guint8 list"
  md5 :: "guint8 list \<Rightarrow> guint8 list"

subsection \<open>The value decoders\<close>

text \<open>
  What a decoder appends to the AVP's item. The library's renderings of bytes
  (\<open>tvb_bytes_to_str\<close>, \<open>tvb_format_text\<close>, \<open>ip_to_str_buf\<close>, \<open>ip6_to_str_buf\<close>,
  \<open>abs_time_to_str\<close>) are constructors holding what is rendered.
\<close>

datatype display =
    UIntText int
  | EnumText string int
  | UInt64Text int
  | UnhandledIntegerLength int
  | EncryptedText
  | DecryptedText "gchar list"
  | FormatText "guint8 list"
  | BytesText "guint8 list"
  | WrongLengthIPText
  | IpText int
  | WrongLengthIPv6Text
  | Ip6Text "guint8 list"
  | WrongLengthDateText
  | TimeText int

type_synonym decoded = "display list \<times> exn option"

definition val_to_str :: "int \<Rightarrow> (int \<times> string) list \<Rightarrow> string \<Rightarrow> string" where
  "val_to_str v tbl dflt = (case map_of tbl v of Some s \<Rightarrow> s | None \<Rightarrow> dflt)"

text \<open>
  \<open>tvb_bytes_to_str (tvb, offset, len)\<close> is \<open>bytes_to_str (tvb_get_ptr (tvb, offset,
  len), len)\<close>, and \<open>tvb_format_text\<close> likewise: the pointer is fetched (or the call
  throws) and the first \<open>len\<close> bytes there are rendered, none when \<open>len\<close> is
  negative.
\<close>

definition tvb_bytes_to_str :: "tvbuff \<Rightarrow> int \<Rightarrow> int \<Rightarrow> exn + display" where
  "tvb_bytes_to_str tvb off len =
     (case tvb_get_ptr tvb off len of
        Inl e \<Rightarrow> Inl e
      | Inr p \<Rightarrow> Inr (BytesText (take (nat len) p)))"

definition tvb_format_text :: "tvbuff \<Rightarrow> int \<Rightarrow> int \<Rightarrow> exn + display" where
  "tvb_format_text tvb off len =
     (case tvb_get_ptr tvb off len of
        Inl e \<Rightarrow> Inl e
      | Inr p \<Rightarrow> Inr (FormatText (take (nat len) p)))"

definition integer_text :: "radius_attr_info \<Rightarrow> int \<Rightarrow> decoded" where
  "integer_text a u =
     (case vs a of
        Some tbl \<Rightarrow> ([EnumText (val_to_str u tbl ''Unknown'') u], None)
      | None \<Rightarrow> ([UIntText u], None))"

definition radius_integer :: "radius_attr_info \<Rightarrow> tvbuff \<Rightarrow> int \<Rightarrow> int \<Rightarrow> decoded" where
  "radius_integer a tvb off len =
     (if len = 2 then
        (case tvb_get_ntohs tvb off of Inl e \<Rightarrow> ([], Some e) | Inr u \<Rightarrow> integer_text a u)
      else if len = 3 then
        (case tvb_get_ntoh24 tvb off of Inl e \<Rightarrow> ([], Some e) | Inr u \<Rightarrow> integer_text a u)
      else if len = 4 then
        (case tvb_get_ntohl tvb off of Inl e \<Rightarrow> ([], Some e) | Inr u \<Rightarrow> integer_text a u)
      else if len = 8 then
        (case tvb_get_ntoh64 tvb off of
           Inl e \<Rightarrow> ([], Some e)
         | Inr u \<Rightarrow> ([UInt64Text u], None))
      else ([UnhandledIntegerLength (guint32 len)], None))"

definition radius_string :: "radius_env \<Rightarrow> radius_attr_info \<Rightarrow> tvbuff \<Rightarrow> int \<Rightarrow> int \<Rightarrow> decoded" where
  "radius_string env a tvb off len =
     (if encrypt a then
        (if shared_secret env = [] then ([EncryptedText], proto_tree_add_item tvb off len)
         else
           (case radius_decrypt_avp (md5 env) (shared_secret env) (authenticator env) tvb off len of
              Inl e \<Rightarrow> ([], Some e)
            | Inr buffer \<Rightarrow> ([DecryptedText buffer], None)))
      else
        (case proto_tree_add_item tvb off len of
           Some e \<Rightarrow> ([], Some e)
         | None \<Rightarrow>
             (case tvb_format_text tvb off len of
                Inl e \<Rightarrow> ([], Some e)
              | Inr t \<Rightarrow> ([t], None))))"

definition radius_octets :: "radius_attr_info \<Rightarrow> tvbuff \<Rightarrow> int \<Rightarrow> int \<Rightarrow> decoded" where
  "radius_octets a tvb off len =
     (case proto_tree_add_item tvb off len of
        Some e \<Rightarrow> ([], Some e)
      | None \<Rightarrow>
          (case tvb_bytes_to_str tvb off len of
             Inl e \<Rightarrow> ([], Some e)
           | Inr t \<Rightarrow> ([t], None)))"

definition radius_ipaddr :: "radius_attr_info \<Rightarrow> tvbuff \<Rightarrow> int \<Rightarrow> int \<Rightarrow> decoded" where
  "radius_ipaddr a tvb off len =
     (if len \<noteq> 4 then ([WrongLengthIPText], None)
      else
        (case tvb_get_ntohl tvb off of
           Inl e \<Rightarrow> ([], Some e)
         | Inr u \<Rightarrow>
             (case proto_tree_add_item tvb off len of
                Some e \<Rightarrow> ([], Some e)
              | None \<Rightarrow> ([IpText u], None))))"

definition radius_ipv6addr :: "radius_attr_info \<Rightarrow> tvbuff \<Rightarrow> int \<Rightarrow> int \<Rightarrow> decoded" where
  "radius_ipv6addr a tvb off len =
     (if len \<noteq> 16 then ([WrongLengthIPv6Text], None)
      else
        (case proto_tree_add_item tvb off len of
           Some e \<Rightarrow> ([], Some e)
         | None \<Rightarrow>
             (case tvb_memcpy tvb off len of
                Inl e \<Rightarrow> ([], Some e)
              | Inr ipv6_buff \<Rightarrow> ([Ip6Text ipv6_buff], None))))"

definition radius_date :: "radius_attr_info \<Rightarrow> tvbuff \<Rightarrow> int \<Rightarrow> int \<Rightarrow> decoded" where
  "radius_date a tvb off len =
     (if len \<noteq> 4 then ([WrongLengthDateText], None)
      else
        (case tvb_get_ntohl tvb off of
           Inl e \<Rightarrow> ([], Some e)
         | Inr secs \<Rightarrow> ([TimeText secs], None)))"

definition radius_abinary :: "radius_attr_info \<Rightarrow> tvbuff \<Rightarrow> int \<Rightarrow> int \<Rightarrow> decoded" where
  "radius_abinary a tvb off len = radius_octets a tvb off len"

definition radius_ifid :: "radius_attr_info \<Rightarrow> tvbuff \<Rightarrow> int \<Rightarrow> int \<Rightarrow> decoded" where
  "radius_ifid a tvb off len = radius_octets a tvb off len"

text \<open>The call \<open>dictionary_entry->type (dictionary_entry, ..., tvb, offset, avp_length, avp_item)\<close>.\<close>

fun call_type ::
  "radius_attr_dissector \<Rightarrow> radius_env \<Rightarrow> radius_attr_info \<Rightarrow> tvbuff \<Rightarrow> int \<Rightarrow> int \<Rightarrow> decoded" where
  "call_type Radius_integer env a tvb off len = radius_integer a tvb off len"
| "call_type Radius_string env a tvb off len = radius_string env a tvb off len"
| "call_type Radius_octets env a tvb off len = radius_octets a tvb off len"
| "call_type Radius_ipaddr env a tvb off len = radius_ipaddr a tvb off len"
| "call_type Radius_ipv6addr env a tvb off len = radius_ipv6addr a tvb off len"
| "call_type Radius_date env a tvb off len = radius_date a tvb off len"
| "call_type Radius_abinary env a tvb off len = radius_abinary a tvb off len"
| "call_type Radius_ifid env a tvb off len = radius_ifid a tvb off len"

subsection \<open>The protocol tree as a list of events\<close>

text \<open>
  The text appended to an AVP's item, piece by piece, in the order of the
  \<open>proto_item_append_text\<close> calls; the fields added to the item's subtree (the
  generated length field, the tag field) stand between them.
\<close>

datatype item_text =
    VendorText string int
  | VendorUnknownText int
  | AttrText string int
  | EapSegmentText int
  | EapLastSegmentText int
  | LengthField int
  | TagText int
  | DissectorText string
  | ValueText "display list"

text \<open>
  \<open>TextItem offset len text\<close> is \<open>proto_tree_add_text (tree, tvb, offset, len, text)\<close>;
  \<open>AvpItem offset avp_length texts\<close> is the item \<open>"AVP: l=%u "\<close> added at \<open>offset\<close>
  with the declared length, and all the text appended to it afterwards;
  \<open>DataSource\<close> is \<open>add_new_data_source (pinfo, eap_tvb, "Reassembled EAP")\<close> and
  \<open>CallEapDissector\<close> is \<open>call_dissector (eap_fragment_handle, eap_tvb, ...)\<close>.
\<close>

datatype event =
    TextItem int int string
  | AvpItem int int "item_text list"
  | DataSource tvbuff
  | CallEapDissector tvbuff

subsection \<open>The AVP walker\<close>

text \<open>
  The local variables of \<open>dissect_attribute_value_pairs\<close> that live across
  iterations; \<open>ws_length\<close> is the parameter \<open>length\<close>. \<open>eap_buffer\<close> is the static
  array of \<open>MAX_RADIUS_PACKET_SIZE\<close> bytes. \<open>eap_tvb\<close> points into \<open>eap_buffer\<close>; the
  bytes it covers are never overwritten afterwards (later fragments are written behind
  them), so it is modelled by its content. The caller passes a tree that is not
  \<open>NULL\<close>, so \<open>eap_tree\<close> is set exactly when \<open>eap_tvb\<close> is.
\<close>

record walker_state =
  ws_offset :: int
  ws_length :: int
  ws_last_eap :: bool
  ws_eap_buffer :: "guint8 list"
  ws_eap_seg_num :: int
  ws_eap_tot_len :: int
  ws_eap_tvb :: "tvbuff option"

text \<open>
  How the function is left: the loop ran to its end, one of the two early returns, an
  exception, or a write outside \<open>eap_buffer\<close>.
\<close>

datatype walk_end =
    LoopDone | NoAvps | AvpTooShort | EapTooLong | Threw exn | BufferOverrun

datatype step_result =
    Continue "event list" walker_state
  | Stop "event list" walk_end walker_state

definition MAX_RADIUS_PACKET_SIZE :: int where
  "MAX_RADIUS_PACKET_SIZE = 4096"

definition RADIUS_VENDOR_SPECIFIC_CODE :: int where
  "RADIUS_VENDOR_SPECIFIC_CODE = 26"

definition RADIUS_EAP_MESSAGE_CODE :: int where
  "RADIUS_EAP_MESSAGE_CODE = 79"

text \<open>\<open>memcpy\<close> into the static buffer; \<open>None\<close> is a write outside the array.\<close>

definition buffer_write :: "guint8 list \<Rightarrow> int \<Rightarrow> guint8 list \<Rightarrow> guint8 list option" where
  "buffer_write buf pos src =
     (if 0 \<le> pos \<and> pos + int (length src) \<le> int (length buf)
      then Some (take (nat pos) buf @ src @ drop (nat pos + length src) buf)
      else None)"

text \<open>Lines 470-483: the tag of a tagged attribute.\<close>

definition avp_tag ::
  "tvbuff \<Rightarrow> radius_attr_info \<Rightarrow> int \<Rightarrow> int \<Rightarrow> exn + (int option \<times> int \<times> int)" where
  "avp_tag tvb entry off avp_length =
     (if tagged entry then
        (case tvb_get_guint8 tvb off of
           Inl e \<Rightarrow> Inl e
         | Inr tag \<Rightarrow>
             if tag \<le> 0x1f then Inr (Some tag, gint (off + 1), guint32 (avp_length - 1))
             else Inr (None, off, avp_length))
      else Inr (None, off, avp_length))"

text \<open>Lines 485-498: the custom decoder if there is one, the value decoder otherwise.\<close>

definition avp_value ::
  "radius_env \<Rightarrow> tvbuff \<Rightarrow> radius_attr_info \<Rightarrow> int \<Rightarrow> int \<Rightarrow> item_text list \<times> exn option" where
  "avp_value env tvb entry off avp_length =
     (case dissector entry of
        Some f \<Rightarrow>
          (case tvb_new_subset tvb off (gint avp_length) of
             Inl e \<Rightarrow> ([], Some e)
           | Inr tvb_value \<Rightarrow>
               (case f tvb_value of
                  Inl e \<Rightarrow> ([], Some e)
                | Inr str \<Rightarrow> ([DissectorText str], None)))
      | None \<Rightarrow>
          (case type entry of
             None \<Rightarrow> ([ValueText []], Some NullFunctionCall)
           | Some ty \<Rightarrow>
               (case call_type ty env entry tvb off (gint avp_length) of
                  (ds, e) \<Rightarrow> ([ValueText ds], e))))"

text \<open>
  Lines 463-500, the part shared by a vendor-specific and a plain AVP. \<open>item_off\<close>
  and \<open>item_len\<close> are where the item was added; \<open>off\<close> and \<open>avp_length\<close> are the
  variables \<open>offset\<close> and \<open>avp_length\<close> after the header has been taken off.
\<close>

definition avp_attribute ::
  "radius_env \<Rightarrow> tvbuff \<Rightarrow> radius_attr_info \<Rightarrow> int \<Rightarrow> int \<Rightarrow> item_text list \<Rightarrow> int \<Rightarrow> int
     \<Rightarrow> walker_state \<Rightarrow> step_result" where
  "avp_attribute env tvb entry item_off item_len texts off avp_length s =
     (let texts1 = texts @ [LengthField avp_length] in
      case avp_tag tvb entry off avp_length of
        Inl e \<Rightarrow> Stop [AvpItem item_off item_len texts1] (Threw e) s
      | Inr (tag, off2, len2) \<Rightarrow>
          let texts2 = texts1 @ (case tag of None \<Rightarrow> [] | Some t \<Rightarrow> [TagText t]) in
          (case avp_value env tvb entry off2 len2 of
             (vt, Some e) \<Rightarrow> Stop [AvpItem item_off item_len (texts2 @ vt)] (Threw e) s
           | (vt, None) \<Rightarrow>
               Continue [AvpItem item_off item_len (texts2 @ vt)]
                 (s\<lparr>ws_offset := gint (off2 + len2)\<rparr>)))"

text \<open>Lines 387-405: the vendor and the attribute of a vendor-specific AVP.\<close>

definition avp_vendor_specific ::
  "radius_dictionary \<Rightarrow> tvbuff \<Rightarrow> int \<Rightarrow> exn + (item_text list \<times> radius_attr_info)" where
  "avp_vendor_specific d tvb off =
     (case tvb_get_ntohl tvb (gint (off + 2)) of
        Inl e \<Rightarrow> Inl e
      | Inr vendor_id \<Rightarrow>
     (case tvb_get_guint8 tvb (gint (off + 6)) of
        Inl e \<Rightarrow> Inl e
      | Inr avp_vsa_type \<Rightarrow>
     (case tvb_get_guint8 tvb (gint (off + 7)) of
        Inl e \<Rightarrow> Inl e
      | Inr avp_vsa_len \<Rightarrow>
          (case vendors_by_id d vendor_id of
             Some vendor \<Rightarrow>
               let entry = (case vendor_attrs_by_id vendor avp_vsa_type of
                              None \<Rightarrow> no_dictionary_entry
                            | Some a \<Rightarrow> a)
               in Inr ([VendorText (vendor_name vendor) vendor_id,
                        AttrText (name entry) avp_vsa_type], entry)
           | None \<Rightarrow>
               Inr ([VendorUnknownText vendor_id,
                     AttrText (name no_dictionary_entry) avp_vsa_type],
                    no_dictionary_entry)))))"

text \<open>Lines 411-448: one EAP-Message fragment.\<close>

definition avp_eap_message :: "tvbuff \<Rightarrow> int \<Rightarrow> int \<Rightarrow> walker_state \<Rightarrow> step_result" where
  "avp_eap_message tvb off avp_length s =
     (let eap_seg_len = guint32 (avp_length - 2) in
      if guint32 (ws_eap_tot_len s + eap_seg_len) > MAX_RADIUS_PACKET_SIZE then
        Stop [AvpItem off avp_length [],
              TextItem off 0 ''[Eap-Message longer than maximum radius packet size]'']
          EapTooLong s
      else
        (case tvb_memcpy tvb (gint (off + 2)) (gint eap_seg_len) of
           Inl e \<Rightarrow> Stop [AvpItem off avp_length []] (Threw e) s
         | Inr seg \<Rightarrow>
        (case buffer_write (ws_eap_buffer s) (ws_eap_tot_len s) seg of
           None \<Rightarrow> Stop [AvpItem off avp_length []] BufferOverrun s
         | Some buf \<Rightarrow>
             let s1 = s\<lparr>ws_eap_buffer := buf,
                        ws_eap_tot_len := guint32 (ws_eap_tot_len s + eap_seg_len),
                        ws_eap_seg_num := guint32 (ws_eap_seg_num s + 1)\<rparr>
             in
             (case (if tvb_bytes_exist tvb off (gint (guint32 (avp_length + 3)))
                    then map_sum id (\<lambda>next_type. next_type \<noteq> RADIUS_EAP_MESSAGE_CODE \<or> ws_last_eap s)
                           (tvb_get_guint8 tvb (gint (off + avp_length)))
                    else Inr True) of
                Inl e \<Rightarrow> Stop [AvpItem off avp_length []] (Threw e) s1
              | Inr True \<Rightarrow>
                  let eap_tvb = take (nat (ws_eap_tot_len s1)) (ws_eap_buffer s1) in
                  Continue [AvpItem off avp_length [EapLastSegmentText (ws_eap_seg_num s1)],
                            DataSource eap_tvb]
                    (s1\<lparr>ws_last_eap := True, ws_eap_tvb := Some eap_tvb,
                        ws_offset := gint (off + avp_length)\<rparr>)
              | Inr False \<Rightarrow>
                  Continue [AvpItem off avp_length [EapSegmentText (ws_eap_seg_num s1)]]
                    (s1\<lparr>ws_offset := gint (off + avp_length)\<rparr>)))))"

text \<open>Lines 364-501: the body of the \<open>do ... while\<close> loop.\<close>

definition avp_step :: "radius_env \<Rightarrow> tvbuff \<Rightarrow> walker_state \<Rightarrow> step_result" where
  "avp_step env tvb s =
     (case tvb_get_guint8 tvb (ws_offset s) of
        Inl e \<Rightarrow> Stop [] (Threw e) s
      | Inr avp_type \<Rightarrow>
     (case tvb_get_guint8 tvb (gint (ws_offset s + 1)) of
        Inl e \<Rightarrow> Stop [] (Threw e) s
      | Inr avp_length \<Rightarrow>
          if avp_length < 3 then Stop [TextItem (ws_offset s) 0 ''AVP too short''] AvpTooShort s
          else
            let s1 = s\<lparr>ws_length := gint (ws_length s - avp_length)\<rparr> in
            (case tvb_ensure_length_remaining tvb (gint (ws_offset s + avp_length - 1)) of
               Inl e \<Rightarrow> Stop [] (Threw e) s1
             | Inr rem \<Rightarrow>
                 if avp_type = RADIUS_VENDOR_SPECIFIC_CODE then
                   (case avp_vendor_specific (dict env) tvb (ws_offset s) of
                      Inl e \<Rightarrow> Stop [AvpItem (ws_offset s) avp_length []] (Threw e) s1
                    | Inr (texts, entry) \<Rightarrow>
                        avp_attribute env tvb entry (ws_offset s) avp_length texts
                          (gint (ws_offset s + 8)) (guint32 (avp_length - 8)) s1)
                 else if avp_type = RADIUS_EAP_MESSAGE_CODE then
                   avp_eap_message tvb (ws_offset s) avp_length s1
                 else
                   (let entry = (case attrs_by_id (dict env) avp_type of
                                   None \<Rightarrow> no_dictionary_entry
                                 | Some a \<Rightarrow> a)
                    in avp_attribute env tvb entry (ws_offset s) avp_length
                         [AttrText (name entry) avp_type]
                         (gint (ws_offset s + 2)) (guint32 (avp_length - 2)) s1))))"

subsection \<open>One iteration shortens the remaining length\<close>

lemma gint_less: "gint x < 2147483648"
  using pos_mod_bound [of 4294967296 "x + 2147483648"] by (simp add: gint_def)

lemma gint_le: "- 2147483648 \<le> x \<Longrightarrow> gint x \<le> x"
proof -
  assume "- 2147483648 \<le> x"
  then have "0 \<le> x + 2147483648" by simp
  then have "(x + 2147483648) mod 4294967296 \<le> x + 2147483648"
    by (rule zmod_le_nonneg_dividend)
  then show ?thesis by (simp add: gint_def)
qed

lemma gint_id: "- 2147483648 \<le> x \<Longrightarrow> x < 2147483648 \<Longrightarrow> gint x = x"
  by (simp add: gint_def)

lemma guint32_id: "0 \<le> x \<Longrightarrow> x < 4294967296 \<Longrightarrow> guint32 x = x"
  by (simp add: guint32_def)

lemma tvb_get_guint8_range:
  "tvb_get_guint8 tvb off = Inr v \<Longrightarrow> 0 \<le> v \<and> v \<le> 255"
proof -
  assume a: "tvb_get_guint8 tvb off = Inr v"
  then obtain p where p: "tvb_get_ptr tvb off 1 = Inr p" and v: "v = be_uint p"
    by (cases "tvb_get_ptr tvb off 1") (auto simp: tvb_get_guint8_def)
  from p have "length p \<le> 1"
    by (auto simp: tvb_get_ptr_def compute_offset_length_def Let_def split: if_splits)
  then consider "p = []" | b where "p = [b]"
    by (cases p) auto
  then show ?thesis
  proof cases
    case 1 then show ?thesis using v by simp
  next
    case (2 b)
    have "uint b < 256" using uint_bounded [of b] by simp
    then show ?thesis using v 2 by simp
  qed
qed

lemma avp_attribute_Continue:
  "avp_attribute env tvb entry io il texts off al s = Continue evs s' \<Longrightarrow>
   \<exists>o'. s' = s\<lparr>ws_offset := o'\<rparr>"
  by (auto simp: avp_attribute_def Let_def split: sum.splits prod.splits option.splits)

lemma avp_eap_message_Continue:
  "avp_eap_message tvb off al s = Continue evs s' \<Longrightarrow> ws_length s' = ws_length s"
  by (auto simp: avp_eap_message_def Let_def split: sum.splits prod.splits option.splits if_splits bool.splits)

lemma avp_step_Continue_length:
  assumes "avp_step env tvb s = Continue evs s'"
  shows "\<exists>al. 3 \<le> al \<and> al \<le> 255 \<and> tvb_get_guint8 tvb (gint (ws_offset s + 1)) = Inr al \<and>
           ws_length s' = gint (ws_length s - al)"
proof -
  from assms obtain ty al where ty: "tvb_get_guint8 tvb (ws_offset s) = Inr ty"
    and al: "tvb_get_guint8 tvb (gint (ws_offset s + 1)) = Inr al"
    by (auto simp: avp_step_def split: sum.splits)
  have r: "0 \<le> al \<and> al \<le> 255" using al by (rule tvb_get_guint8_range)
  have ge: "3 \<le> al" using assms ty al by (auto simp: avp_step_def split: if_splits)
  define s1 where "s1 = s\<lparr>ws_length := gint (ws_length s - al)\<rparr>"
  have "ws_length s' = ws_length s1"
    using assms ty al ge
    by (auto simp: avp_step_def Let_def s1_def split: sum.splits if_splits prod.splits
             dest!: avp_attribute_Continue avp_eap_message_Continue)
  then show ?thesis using r ge al by (auto simp: s1_def)
qed

subsection \<open>The loop and the function\<close>

text \<open>
  What one call leaves behind: the events in order, how the function was left, the
  variables at that point, and the number of iterations of the loop that were begun.
\<close>

record walk =
  w_events :: "event list"
  w_end :: walk_end
  w_state :: walker_state
  w_iterations :: nat

text \<open>
  The loop \<open>do { ... } while (length > 0)\<close>. It terminates on every input: an
  iteration that goes on has subtracted a declared length between 3 and 255 from
  \<open>length\<close>.
\<close>

function avp_loop :: "radius_env \<Rightarrow> tvbuff \<Rightarrow> walker_state \<Rightarrow> walk" where
  "avp_loop env tvb s =
     (case avp_step env tvb s of
        Stop evs r s' \<Rightarrow> \<lparr>w_events = evs, w_end = r, w_state = s', w_iterations = 1\<rparr>
      | Continue evs s' \<Rightarrow>
          if 0 < ws_length s' then
            (let w = avp_loop env tvb s'
             in w\<lparr>w_events := evs @ w_events w, w_iterations := Suc (w_iterations w)\<rparr>)
          else \<lparr>w_events = evs, w_end = LoopDone, w_state = s', w_iterations = 1\<rparr>)"
  by pat_completeness auto
termination
proof (relation "measure (\<lambda>(env, tvb, s). if ws_length s \<le> 0 then 4294967296 else nat (ws_length s))")
  show "wf (measure (\<lambda>(env, tvb, s). if ws_length s \<le> 0 then 4294967296 else nat (ws_length s)))"
    by simp
next
  fix env tvb s evs s'
  assume step: "avp_step env tvb s = Continue evs s'" and pos: "0 < ws_length s'"
  from avp_step_Continue_length [OF step] obtain al where
    al: "3 \<le> al" "al \<le> 255" "ws_length s' = gint (ws_length s - al)" by blast
  have small: "ws_length s' < 2147483648" using al gint_less by simp
  have "ws_length s' < ws_length s" if "0 < ws_length s"
    using gint_le [of "ws_length s - al"] al that by simp
  then show "((env, tvb, s'), (env, tvb, s)) \<in>
      measure (\<lambda>(env, tvb, s). if ws_length s \<le> 0 then 4294967296 else nat (ws_length s))"
    using pos small by auto
qed

declare avp_loop.simps [simp del]

text \<open>
  \<open>dissect_attribute_value_pairs (tree, pinfo, tvb, offset, length)\<close>;
  \<open>eap_buffer\<close> is what the static array holds when the function is entered.
\<close>

definition walker_init :: "guint8 list \<Rightarrow> int \<Rightarrow> int \<Rightarrow> walker_state" where
  "walker_init eap_buffer off len =
     \<lparr>ws_offset = off, ws_length = len, ws_last_eap = False,
      ws_eap_buffer = eap_buffer, ws_eap_seg_num = 0, ws_eap_tot_len = 0,
      ws_eap_tvb = None\<rparr>"

definition dissect_attribute_value_pairs ::
  "radius_env \<Rightarrow> tvbuff \<Rightarrow> guint8 list \<Rightarrow> int \<Rightarrow> int \<Rightarrow> walk" where
  "dissect_attribute_value_pairs env tvb eap_buffer off len =
     (if len = 0 then
        \<lparr>w_events = [TextItem off 0 ''No Attribute Value Pairs Found''], w_end = NoAvps,
          w_state = walker_init eap_buffer off len, w_iterations = 0\<rparr>
      else
        (let w = avp_loop env tvb (walker_init eap_buffer off len)
         in if w_end w = LoopDone then
              (case ws_eap_tvb (w_state w) of
                 Some eap_tvb \<Rightarrow> w\<lparr>w_events := w_events w @ [CallEapDissector eap_tvb]\<rparr>
               | None \<Rightarrow> w)
            else w))"

subsection \<open>Registering a custom decoder\<close>

text \<open>\<open>g_strdup_printf ("%u", n)\<close>: the decimal digits of an unsigned number.\<close>

function fmt_u :: "nat \<Rightarrow> string" where
  "fmt_u n =
     (if n < 10 then [''0123456789'' ! n]
      else fmt_u (n div 10) @ [''0123456789'' ! (n mod 10)])"
  by pat_completeness auto
termination
  by (relation "measure (\<lambda>n. n)") auto

declare fmt_u.simps [simp del]

text \<open>
  Lines 713-728: the entry for \<open>attribute_id\<close> in the table \<open>by_id\<close> gets the decoder;
  when the table has none, a new entry is made first. \<open>g_malloc\<close> does not clear the
  memory it returns: \<open>fresh\<close> is what the new entry's memory holds, and the fields the
  function does not assign (\<open>tagged\<close>, \<open>hf64\<close>, \<open>hf_tag\<close>) keep its values.
\<close>

definition install_avp_dissector ::
  "(int \<rightharpoonup> radius_attr_info) \<Rightarrow> radius_attr_info \<Rightarrow> int \<Rightarrow> radius_avp_dissector
     \<Rightarrow> (int \<rightharpoonup> radius_attr_info)" where
  "install_avp_dissector by_id fresh attribute_id radius_avp_dissector =
     (case by_id attribute_id of
        Some dictionary_entry \<Rightarrow>
          by_id(attribute_id \<mapsto> dictionary_entry\<lparr>dissector := Some radius_avp_dissector\<rparr>)
      | None \<Rightarrow>
          (let dictionary_entry =
                 fresh\<lparr>name := ''Unknown-Attribute-'' @ fmt_u (nat attribute_id),
                       code := attribute_id, encrypt := False, type := None, vs := None,
                       hf := hf no_dictionary_entry,
                       hf_len := hf_len no_dictionary_entry,
                       ett := ett no_dictionary_entry\<rparr>
           in by_id(code dictionary_entry \<mapsto>
                      dictionary_entry\<lparr>dissector := Some radius_avp_dissector\<rparr>)))"

text \<open>
  \<open>radius_register_avp_dissector (vendor_id, attribute_id, radius_avp_dissector)\<close> on
  the global \<open>dict\<close>, returned updated. The decoder is a function, so the assertion
  that it is not \<open>NULL\<close> holds by its type. A vendor found in \<open>vendors_by_id\<close> is
  changed in place; a new one is entered under its code and its name.
\<close>

definition radius_register_avp_dissector ::
  "radius_dictionary \<Rightarrow> radius_attr_info \<Rightarrow> int \<Rightarrow> int \<Rightarrow> radius_avp_dissector
     \<Rightarrow> radius_dictionary" where
  "radius_register_avp_dissector d fresh vendor_id attribute_id radius_avp_dissector =
     (if vendor_id \<noteq> 0 then
        (case vendors_by_id d vendor_id of
           Some vendor \<Rightarrow>
             d\<lparr>vendors_by_id := (vendors_by_id d)(vendor_id \<mapsto>
                  vendor\<lparr>vendor_attrs_by_id :=
                    install_avp_dissector (vendor_attrs_by_id vendor) fresh attribute_id
                      radius_avp_dissector\<rparr>)\<rparr>
         | None \<Rightarrow>
             (let vendor = \<lparr>vendor_name = ''Unknown-Vendor-'' @ fmt_u (nat vendor_id),
                            vendor_code = vendor_id,
                            vendor_attrs_by_id = Map.empty\<rparr>
              in d\<lparr>vendors_by_id := (vendors_by_id d)(vendor_code vendor \<mapsto>
                      vendor\<lparr>vendor_attrs_by_id :=
                        install_avp_dissector (vendor_attrs_by_id vendor) fresh attribute_id
                          radius_avp_dissector\<rparr>),
                    vendors_by_name := (vendors_by_name d)(vendor_name vendor \<mapsto>
                      vendor_code vendor)\<rparr>))
      else
        d\<lparr>attrs_by_id :=
             install_avp_dissector (attrs_by_id d) fresh attribute_id radius_avp_dissector\<rparr>)"

text \<open>The custom decoder of this file, registered for vendor CoSine, attribute 5.\<close>

definition dissect_cosine_vpvc :: radius_avp_dissector where
  "dissect_cosine_vpvc tvb =
     (if tvb_length tvb \<noteq> 4 then Inr ''[Wrong Lenght for VP/VC AVP]''
      else
        (case tvb_get_ntohs tvb 0 of
           Inl e \<Rightarrow> Inl e
         | Inr vpi \<Rightarrow>
             (case tvb_get_ntohs tvb 2 of
                Inl e \<Rightarrow> Inl e
              | Inr vci \<Rightarrow> Inr (fmt_u (nat vpi) @ ''/'' @ fmt_u (nat vci)))))"

subsection \<open>AVPs in the buffer\<close>

text \<open>
  The vocabulary of the properties below. A raw AVP is its type byte and its value
  bytes; \<open>encode_avp\<close> is its wire format (type, declared length, value), and
  \<open>avps_at tvb pos as\<close> says that the AVPs \<open>as\<close> stand one after the other in the
  buffer from \<open>pos\<close> on. \<open>wf_avp\<close> is the format rule of the specification: a
  declared length of at least 3 (and at most 255, one byte), at least 8 for a
  vendor-specific AVP. \<open>avp_entry\<close> is the dictionary entry the walker finds for an AVP,
  \<open>avp_steps\<close> are the first \<open>n\<close> iterations of the loop, when each of them goes on to
  the next.
\<close>

type_synonym raw_avp = "guint8 \<times> guint8 list"

definition avp_len :: "raw_avp \<Rightarrow> nat" where
  "avp_len a = length (snd a) + 2"

definition encode_avp :: "raw_avp \<Rightarrow> guint8 list" where
  "encode_avp a = fst a # of_nat (avp_len a) # snd a"

definition avp_at :: "tvbuff \<Rightarrow> nat \<Rightarrow> raw_avp \<Rightarrow> bool" where
  "avp_at tvb pos a =
     (pos + avp_len a \<le> length tvb \<and> take (avp_len a) (drop pos tvb) = encode_avp a)"

definition wf_avp :: "raw_avp \<Rightarrow> bool" where
  "wf_avp a =
     (1 \<le> length (snd a) \<and> length (snd a) \<le> 253 \<and> (fst a = 26 \<longrightarrow> 6 \<le> length (snd a)))"

definition decoder_returns :: "radius_attr_info \<Rightarrow> bool" where
  "decoder_returns e =
     (case dissector e of
        Some f \<Rightarrow> (\<forall>x. \<exists>str. f x = Inr str)
      | None \<Rightarrow> type e \<noteq> None)"

definition avp_entry :: "radius_dictionary \<Rightarrow> raw_avp \<Rightarrow> radius_attr_info" where
  "avp_entry d a =
     (if fst a = 26 then
        (case vendors_by_id d (be_uint (take 4 (snd a))) of
           None \<Rightarrow> no_dictionary_entry
         | Some vendor \<Rightarrow>
             (case vendor_attrs_by_id vendor (uint (snd a ! 4)) of
                None \<Rightarrow> no_dictionary_entry
              | Some e \<Rightarrow> e))
      else
        (case attrs_by_id d (uint (fst a)) of
           None \<Rightarrow> no_dictionary_entry
         | Some e \<Rightarrow> e))"

definition avp_header_texts :: "radius_dictionary \<Rightarrow> raw_avp \<Rightarrow> item_text list" where
  "avp_header_texts d a =
     (if fst a = 26 then
        [case vendors_by_id d (be_uint (take 4 (snd a))) of
           None \<Rightarrow> VendorUnknownText (be_uint (take 4 (snd a)))
         | Some vendor \<Rightarrow> VendorText (vendor_name vendor) (be_uint (take 4 (snd a))),
         AttrText (name (avp_entry d a)) (uint (snd a ! 4))]
      else [AttrText (name (avp_entry d a)) (uint (fst a))])"

definition avp_header_size :: "raw_avp \<Rightarrow> nat" where
  "avp_header_size a = (if fst a = 26 then 8 else 2)"

definition next_is_eap :: "tvbuff \<Rightarrow> nat \<Rightarrow> bool" where
  "next_is_eap tvb pos = (pos + 3 \<le> length tvb \<and> tvb ! pos = 79)"

fun avp_items :: "event list \<Rightarrow> (int \<times> int) list" where
  "avp_items [] = []"
| "avp_items (AvpItem pos len texts # es) = (pos, len) # avp_items es"
| "avp_items (e # es) = avp_items es"

fun is_call :: "event \<Rightarrow> bool" where
  "is_call (CallEapDissector b) = True"
| "is_call e = False"

definition decodable :: "radius_dictionary \<Rightarrow> raw_avp \<Rightarrow> bool" where
  "decodable d a =
     (fst a \<noteq> 79 \<longrightarrow>
        decoder_returns (avp_entry d a) \<and>
        (tagged (avp_entry d a) \<longrightarrow> avp_header_size a < avp_len a))"

fun avp_steps :: "radius_env \<Rightarrow> tvbuff \<Rightarrow> nat \<Rightarrow> walker_state \<Rightarrow> (event list \<times> walker_state) option" where
  "avp_steps env tvb 0 s = Some ([], s)"
| "avp_steps env tvb (Suc n) s =
     (case avp_step env tvb s of
        Continue evs s1 \<Rightarrow>
          if 0 < ws_length s1 then
            (case avp_steps env tvb n s1 of
               Some (evs2, s2) \<Rightarrow> Some (evs @ evs2, s2)
             | None \<Rightarrow> None)
          else None
      | Stop evs r s1 \<Rightarrow> None)"

fun avps_at :: "tvbuff \<Rightarrow> nat \<Rightarrow> raw_avp list \<Rightarrow> bool" where
  "avps_at tvb pos [] = True"
| "avps_at tvb pos (a # as) = (avp_at tvb pos a \<and> avps_at tvb (pos + avp_len a) as)"

definition avps_len :: "raw_avp list \<Rightarrow> nat" where
  "avps_len as = sum_list (map avp_len as)"

definition eap_values :: "raw_avp list \<Rightarrow> guint8 list list" where
  "eap_values as = map snd (filter (\<lambda>a. fst a = 79) as)"

fun avp_positions :: "nat \<Rightarrow> raw_avp list \<Rightarrow> (int \<times> int) list" where
  "avp_positions pos [] = []"
| "avp_positions pos (a # as) = (int pos, int (avp_len a)) # avp_positions (pos + avp_len a) as"

fun eap_last :: "tvbuff \<Rightarrow> nat \<Rightarrow> bool \<Rightarrow> raw_avp list \<Rightarrow> bool" where
  "eap_last tvb pos b [] = b"
| "eap_last tvb pos b (a # as) =
     eap_last tvb (pos + avp_len a)
       (if fst a = 79 then b \<or> \<not> next_is_eap tvb (pos + avp_len a) else b) as"

definition unknown_avp :: "radius_dictionary \<Rightarrow> raw_avp \<Rightarrow> bool" where
  "unknown_avp d a =
     (if fst a = 26 then
        (case vendors_by_id d (be_uint (take 4 (snd a))) of
           None \<Rightarrow> True
         | Some vendor \<Rightarrow> vendor_attrs_by_id vendor (uint (snd a ! 4)) = None)
      else attrs_by_id d (uint (fst a)) = None)"

definition avp_payload :: "raw_avp \<Rightarrow> guint8 list" where
  "avp_payload a = drop (avp_header_size a - 2) (snd a)"

definition eap_inv :: "walker_state \<Rightarrow> bool" where
  "eap_inv s =
     (0 \<le> ws_eap_tot_len s \<and> ws_eap_tot_len s \<le> MAX_RADIUS_PACKET_SIZE \<and>
      int (length (ws_eap_buffer s)) = MAX_RADIUS_PACKET_SIZE)"

subsection \<open>Example packets\<close>

text \<open>An environment whose dictionary has no entry.\<close>

definition empty_env :: radius_env where
  "empty_env =
     \<lparr>dict = \<lparr>attrs_by_id = Map.empty, vendors_by_id = Map.empty, vendors_by_name = Map.empty\<rparr>,
      shared_secret = [], authenticator = replicate 16 0, md5 = (\<lambda>x. replicate 16 0)\<rparr>"

text \<open>An oversized packet: sixteen and one EAP-Message AVPs of 255 bytes, and one more AVP.\<close>

definition eap_flood_avps :: "raw_avp list" where
  "eap_flood_avps = replicate 16 (79, replicate 253 0) @ [(79, replicate 253 0), (1, [0x61])]"

definition eap_flood_tvb :: tvbuff where
  "eap_flood_tvb = replicate 20 0 @ concat (map encode_avp eap_flood_avps)"

text \<open>A small dictionary, and a packet with a tagged attribute, a vendor-specific AVP with a
  custom decoder, an EAP-Message AVP and a User-Name AVP.\<close>

definition sample_dict :: radius_dictionary where
  "sample_dict =
     \<lparr>attrs_by_id = Map.empty
        (1 \<mapsto> \<lparr>name = ''User-Name'', code = 1, encrypt = False, tagged = False,
                type = Some Radius_string, dissector = None, vs = None,
                ett = -1, hf = -1, hf64 = -1, hf_tag = -1, hf_len = -1\<rparr>,
         64 \<mapsto> \<lparr>name = ''Tunnel-Type'', code = 64, encrypt = False, tagged = True,
                 type = Some Radius_integer, dissector = None, vs = Some [(3, ''L2TP'')],
                 ett = -1, hf = -1, hf64 = -1, hf_tag = -1, hf_len = -1\<rparr>),
      vendors_by_id = Map.empty
        (9 \<mapsto> \<lparr>vendor_name = ''Cisco'', vendor_code = 9,
                vendor_attrs_by_id = Map.empty
                  (1 \<mapsto> \<lparr>name = ''Cisco-Address'', code = 1, encrypt = False, tagged = False,
                          type = Some Radius_ipaddr, dissector = None, vs = None,
                          ett = -1, hf = -1, hf64 = -1, hf_tag = -1, hf_len = -1\<rparr>)\<rparr>,
         3085 \<mapsto> \<lparr>vendor_name = ''CoSine'', vendor_code = 3085,
                   vendor_attrs_by_id = Map.empty
                     (5 \<mapsto> \<lparr>name = ''CoSine-VPI-VCI'', code = 5, encrypt = False,
                             tagged = False, type = Some Radius_octets,
                             dissector = Some dissect_cosine_vpvc, vs = None,
                             ett = -1, hf = -1, hf64 = -1, hf_tag = -1, hf_len = -1\<rparr>)\<rparr>),
      vendors_by_name = Map.empty (''Cisco'' \<mapsto> 9, ''CoSine'' \<mapsto> 3085)\<rparr>"

definition sample_env :: radius_env where
  "sample_env = \<lparr>dict = sample_dict, shared_secret = [], authenticator = replicate 16 0,
                  md5 = (\<lambda>x. replicate 16 0)\<rparr>"

definition sample_tvb :: tvbuff where
  "sample_tvb = replicate 20 0 @
     [64, 6, 1, 0, 0, 3,
      26, 12, 0, 0, 12, 13, 5, 6, 0, 1, 0, 2,
      79, 5, 1, 2, 3,
      1, 4, 0x61, 0x62]"

definition sample_avps :: "raw_avp list" where
  "sample_avps =
     [(64, [1, 0, 0, 3]), (26, [0, 0, 12, 13, 5, 6, 0, 1, 0, 2]), (79, [1, 2, 3]),
      (1, [0x61, 0x62])]"

text \<open>Three EAP-Message AVPs with 10, 10 and 5 value bytes, then a User-Name AVP.\<close>

definition eap_sample_tvb :: tvbuff where
  "eap_sample_tvb = replicate 20 0 @
     [79, 12, 1, 2, 3, 4, 5, 6, 7, 8, 9, 10,
      79, 12, 11, 12, 13, 14, 15, 16, 17, 18, 19, 20,
      79, 7, 21, 22, 23, 24, 25,
      1, 4, 0x61, 0x62]"

definition eap_sample_avps :: "raw_avp list" where
  "eap_sample_avps =
     [(79, [1, 2, 3, 4, 5, 6, 7, 8, 9, 10]),
      (79, [11, 12, 13, 14, 15, 16, 17, 18, 19, 20]),
      (79, [21, 22, 23, 24, 25]),
      (1, [0x61, 0x62])]"

text \<open>A vendor-specific AVP of declared length 7, followed by a User-Name AVP.\<close>

definition short_vsa_tvb :: tvbuff where
  "short_vsa_tvb = replicate 20 0 @
     [26, 7, 0, 0, 0, 9, 1,
      1, 10, 0x74, 0x65, 0x73, 0x74, 0x75, 0x73, 0x65, 0x72]"

text \<open>Two Tunnel-Type AVPs (a tagged descriptor of \<open>sample_dict\<close>): the value of the first
  begins with 0x1F, the value of the second with 0x20.\<close>

definition tagged_tvb :: tvbuff where
  "tagged_tvb = replicate 20 0 @ [64, 6, 0x1F, 0, 0, 3, 64, 6, 0x20, 0, 0, 3]"

text \<open>A dictionary whose vendor attribute Cisco/1 is marked tagged, and a packet of 34 bytes
  (by its length field and in the buffer): a User-Name AVP and a vendor-specific AVP of
  declared length 8, whose value is empty.\<close>

definition tagged_vsa_env :: radius_env where
  "tagged_vsa_env =
     \<lparr>dict =
        \<lparr>attrs_by_id = Map.empty
           (1 \<mapsto> \<lparr>name = ''User-Name'', code = 1, encrypt = False, tagged = False,
                   type = Some Radius_string, dissector = None, vs = None,
                   ett = -1, hf = -1, hf64 = -1, hf_tag = -1, hf_len = -1\<rparr>),
         vendors_by_id = Map.empty
           (9 \<mapsto> \<lparr>vendor_name = ''Cisco'', vendor_code = 9,
                   vendor_attrs_by_id = Map.empty
                     (1 \<mapsto> \<lparr>name = ''Cisco-Tagged'', code = 1, encrypt = False, tagged = True,
                             type = Some Radius_octets, dissector = None, vs = None,
                             ett = -1, hf = -1, hf64 = -1, hf_tag = -1, hf_len = -1\<rparr>)\<rparr>),
         vendors_by_name = Map.empty (''Cisco'' \<mapsto> 9)\<rparr>,
      shared_secret = [], authenticator = replicate 16 0, md5 = (\<lambda>x. replicate 16 0)\<rparr>"

definition tagged_vsa_tvb :: tvbuff where
  "tagged_vsa_tvb = [1, 7, 0, 34] @ replicate 16 0 @
     [1, 6, 0x75, 0x73, 0x65, 0x72,
      26, 8, 0, 0, 0, 9, 1, 2]"

text \<open>A packet of 23 bytes by its length field, one EAP-Message AVP, followed in the buffer
  by three bytes of padding that begin with 79.\<close>

definition eap_padded_tvb :: tvbuff where
  "eap_padded_tvb = [1, 7, 0, 23] @ replicate 16 0 @ [79, 3, 0xAA] @ [79, 3, 0xBB]"

subsection \<open>The decryption meets its contract\<close>

lemma app_render:
  "(if isprint c then dest @ [c] else dest @ sprintf_octal c) = dest @ render_byte c"
  by (simp add: render_byte_def)

lemma decrypt_xor_loop_eq:
  "0 \<le> i \<Longrightarrow> decrypt_xor_loop pd digest i len dest =
     (if i < 16 \<and> i < len
      then (min 16 len, dest @ concat (map (\<lambda>k. render_byte ((pd ! k) XOR (digest ! k)))
                                      [nat i ..< nat (min 16 len)]))
      else (i, dest))"
proof (induction pd digest i len dest rule: decrypt_xor_loop.induct)
  case (1 pd digest i len dest)
  show ?case
  proof (cases "i < 16 \<and> i < len")
    case False
    then show ?thesis by (auto simp add: decrypt_xor_loop.simps [of pd digest i len dest])
  next
    case True
    define c where "c = (pd ! nat i) XOR (digest ! nat i)"
    have nat_i: "nat (i + 1) = Suc (nat i)" using "1.prems" by simp
    have lt: "nat i < nat (min 16 len)" using True "1.prems" by simp
    have upt: "[nat i ..< nat (min 16 len)] = nat i # [nat (i + 1) ..< nat (min 16 len)]"
      using lt by (simp add: upt_conv_Cons nat_i)
    have step: "decrypt_xor_loop pd digest i len dest =
        decrypt_xor_loop pd digest (i + 1) len (dest @ render_byte c)"
      using True by (simp add: decrypt_xor_loop.simps [of pd digest i len dest] c_def app_render Let_def)
    have ih: "decrypt_xor_loop pd digest (i + 1) len (dest @ render_byte c) =
       (if i + 1 < 16 \<and> i + 1 < len
        then (min 16 len, (dest @ render_byte c) @ concat (map (\<lambda>k. render_byte ((pd ! k) XOR (digest ! k)))
                                      [nat (i + 1) ..< nat (min 16 len)]))
        else (i + 1, dest @ render_byte c))"
      using "1.IH" [OF True c_def] "1.prems" by (simp add: app_render)
    show ?thesis
    proof (cases "i + 1 < 16 \<and> i + 1 < len")
      case True
      then show ?thesis using step ih upt \<open>i < 16 \<and> i < len\<close> by (simp add: c_def)
    next
      case False
      then have "min 16 len = i + 1" using \<open>i < 16 \<and> i < len\<close> by auto
      then show ?thesis using step ih upt False \<open>i < 16 \<and> i < len\<close> by (simp add: c_def)
    qed
  qed
qed

lemma decrypt_copy_loop_eq:
  "0 \<le> i \<Longrightarrow> decrypt_copy_loop pd i len dest =
     dest @ concat (map (\<lambda>k. render_byte (pd ! k)) [nat i ..< nat len])"
proof (induction pd i len dest rule: decrypt_copy_loop.induct)
  case (1 pd i len dest)
  show ?case
  proof (cases "i < len")
    case False
    then show ?thesis by (simp add: decrypt_copy_loop.simps [of pd i len dest])
  next
    case True
    have nat_i: "nat (i + 1) = Suc (nat i)" using "1.prems" by simp
    have upt: "[nat i ..< nat len] = nat i # [nat (i + 1) ..< nat len]"
      using True "1.prems" by (simp add: upt_conv_Cons nat_i)
    have step: "decrypt_copy_loop pd i len dest =
        decrypt_copy_loop pd (i + 1) len (dest @ render_byte (pd ! nat i))"
      using True by (simp add: decrypt_copy_loop.simps [of pd i len dest] app_render)
    have "decrypt_copy_loop pd (i + 1) len (dest @ render_byte (pd ! nat i)) =
       (dest @ render_byte (pd ! nat i)) @ concat (map (\<lambda>k. render_byte (pd ! k)) [nat (i + 1) ..< nat len])"
      using "1.IH" [OF True] "1.prems" by (simp add: app_render)
    then show ?thesis using step upt by simp
  qed
qed

lemma tvb_get_ptr_in_range:
  "0 \<le> off \<Longrightarrow> 0 \<le> len \<Longrightarrow> off + len \<le> int (length tvb) \<Longrightarrow>
   tvb_get_ptr tvb off len = Inr (take (nat len) (drop (nat off) tvb))"
  by (simp add: tvb_get_ptr_def compute_offset_length_def Let_def)

subsection \<open>The accessors inside the buffer\<close>

lemma compute_offset_length_in_range:
  "0 \<le> off \<Longrightarrow> 0 \<le> len \<Longrightarrow> off + len \<le> int (length tvb) \<Longrightarrow>
   compute_offset_length tvb off len = Inr (nat off, nat len)"
  by (simp add: compute_offset_length_def Let_def)

lemma tvb_get_guint8_at:
  "0 \<le> off \<Longrightarrow> off < int (length tvb) \<Longrightarrow>
   tvb_get_guint8 tvb off = Inr (uint (tvb ! nat off))"
proof -
  assume a: "0 \<le> off" "off < int (length tvb)"
  then have "take (nat 1) (drop (nat off) tvb) = [tvb ! nat off]"
    by (simp add: take_Suc_conv_app_nth hd_drop_conv_nth take_Suc)
  then show ?thesis
    using a tvb_get_ptr_in_range [of off 1 tvb] by (simp add: tvb_get_guint8_def)
qed

lemma tvb_ensure_length_remaining_in_range:
  "0 \<le> off \<Longrightarrow> off < int (length tvb) \<Longrightarrow>
   tvb_ensure_length_remaining tvb off = Inr (length tvb - nat off)"
  by (auto simp: tvb_ensure_length_remaining_def compute_offset_length_def Let_def nat_diff_distrib)

lemma tvb_bytes_exist_iff:
  "0 \<le> off \<Longrightarrow> 0 \<le> len \<Longrightarrow>
   tvb_bytes_exist tvb off len = (off + len \<le> int (length tvb))"
  by (auto simp: tvb_bytes_exist_def compute_offset_length_def Let_def)

lemma proto_tree_add_item_in_range:
  "0 \<le> off \<Longrightarrow> 0 \<le> len \<Longrightarrow> off + len \<le> int (length tvb) \<Longrightarrow>
   proto_tree_add_item tvb off len = None"
  by (simp add: proto_tree_add_item_def compute_offset_length_in_range)

lemma call_type_in_range:
  assumes "0 \<le> off" "0 \<le> len" "off + len \<le> int (length tvb)"
  shows "snd (call_type ty env a tvb off len) = None"
proof -
  have ptr: "\<And>k. 0 \<le> k \<Longrightarrow> k \<le> len \<Longrightarrow> \<exists>p. tvb_get_ptr tvb off k = Inr p"
    using assms by (simp add: tvb_get_ptr_in_range)
  have item: "proto_tree_add_item tvb off len = None"
    using assms by (rule proto_tree_add_item_in_range)
  have full: "\<exists>p. tvb_get_ptr tvb off len = Inr p" using ptr [of len] assms by simp
  have octets: "snd (radius_octets a tvb off len) = None"
    using item full by (auto simp: radius_octets_def tvb_bytes_to_str_def)
  show ?thesis
  proof (cases ty)
    case Radius_integer
    show ?thesis
      using ptr [of 2] ptr [of 3] ptr [of 4] ptr [of 8]
      by (auto simp: Radius_integer radius_integer_def integer_text_def tvb_get_ntohs_def
            tvb_get_ntoh24_def tvb_get_ntohl_def tvb_get_ntoh64_def split: option.splits)
  next
    case Radius_string
    show ?thesis
      using item full
      by (auto simp: Radius_string radius_string_def tvb_format_text_def radius_decrypt_avp_def
            Let_def split: prod.splits)
  next
    case Radius_octets
    then show ?thesis using octets by simp
  next
    case Radius_ipaddr
    show ?thesis
      using item ptr [of 4]
      by (auto simp: Radius_ipaddr radius_ipaddr_def tvb_get_ntohl_def)
  next
    case Radius_ipv6addr
    show ?thesis
      using item full
      by (auto simp: Radius_ipv6addr radius_ipv6addr_def tvb_memcpy_def)
  next
    case Radius_date
    show ?thesis
      using ptr [of 4]
      by (auto simp: Radius_date radius_date_def tvb_get_ntohl_def)
  next
    case Radius_abinary
    then show ?thesis using octets by (simp add: radius_abinary_def)
  next
    case Radius_ifid
    then show ?thesis using octets by (simp add: radius_ifid_def)
  qed
qed

lemma avp_at_type:
  assumes "avp_at tvb pos a"
  shows "tvb ! pos = fst a"
proof -
  have "take (avp_len a) (drop pos tvb) ! 0 = encode_avp a ! 0"
    using assms by (simp add: avp_at_def)
  moreover have "pos < length tvb" using assms by (simp add: avp_at_def avp_len_def)
  ultimately show ?thesis by (simp add: avp_len_def encode_avp_def)
qed

lemma avp_at_length_byte:
  assumes "avp_at tvb pos a"
  shows "tvb ! (pos + 1) = of_nat (avp_len a)"
proof -
  have "take (avp_len a) (drop pos tvb) ! 1 = encode_avp a ! 1"
    using assms by (simp add: avp_at_def)
  moreover have "pos + 1 < length tvb" using assms by (simp add: avp_at_def avp_len_def)
  ultimately show ?thesis by (simp add: avp_len_def encode_avp_def)
qed

lemma avp_at_value:
  assumes "avp_at tvb pos a"
  shows "take (length (snd a)) (drop (pos + 2) tvb) = snd a"
proof -
  have "drop 2 (take (avp_len a) (drop pos tvb)) = drop 2 (encode_avp a)"
    using assms by (simp add: avp_at_def)
  then show ?thesis
    by (simp add: drop_take avp_len_def encode_avp_def add.commute)
qed

lemma uint_of_nat_byte: "n < 256 \<Longrightarrow> uint (of_nat n :: guint8) = int n"
proof -
  assume "n < 256"
  then have "unat (of_nat n :: guint8) = n" by (simp add: unat_of_nat)
  then show ?thesis by (simp add: uint_nat)
qed

lemma avp_len_byte:
  "length (snd a) \<le> 253 \<Longrightarrow> uint (of_nat (avp_len a) :: guint8) = int (avp_len a)"
  by (rule uint_of_nat_byte) (simp add: avp_len_def)

lemma uint_eq_numeral_byte [simp]:
  "(uint (b :: guint8) = 26) = (b = 26)" "(uint (b :: guint8) = 79) = (b = 79)"
  by (auto simp: word_uint_eq_iff)

lemma avp_step_header:
  assumes at: "avp_at tvb pos a"
    and v1: "1 \<le> length (snd a)" and v2: "length (snd a) \<le> 253"
    and off: "ws_offset s = int pos"
    and small: "int (length tvb) < 2147483648"
  shows "avp_step env tvb s =
     (let s1 = s\<lparr>ws_length := gint (ws_length s - int (avp_len a))\<rparr> in
      if fst a = 26 then
        (case avp_vendor_specific (dict env) tvb (int pos) of
           Inl e \<Rightarrow> Stop [AvpItem (int pos) (int (avp_len a)) []] (Threw e) s1
         | Inr (texts, entry) \<Rightarrow>
             avp_attribute env tvb entry (int pos) (int (avp_len a)) texts
               (gint (int pos + 8)) (guint32 (int (avp_len a) - 8)) s1)
      else if fst a = 79 then avp_eap_message tvb (int pos) (int (avp_len a)) s1
      else
        (let entry = (case attrs_by_id (dict env) (uint (fst a)) of
                        None \<Rightarrow> no_dictionary_entry
                      | Some e \<Rightarrow> e)
         in avp_attribute env tvb entry (int pos) (int (avp_len a))
              [AttrText (name entry) (uint (fst a))]
              (int pos + 2) (int (avp_len a) - 2) s1))"
proof -
  have fits: "pos + avp_len a \<le> length tvb" using at by (simp add: avp_at_def)
  have len: "3 \<le> avp_len a" "avp_len a \<le> 255" using v1 v2 by (simp_all add: avp_len_def)
  have ty: "tvb_get_guint8 tvb (int pos) = Inr (uint (fst a))"
    using tvb_get_guint8_at [of "int pos" tvb] fits len avp_at_type [OF at] by simp
  have g1: "gint (int pos + 1) = int pos + 1"
    using fits len small by (intro gint_id) simp_all
  have lb: "tvb_get_guint8 tvb (int pos + 1) = Inr (int (avp_len a))"
    using tvb_get_guint8_at [of "int pos + 1" tvb] fits len avp_at_length_byte [OF at]
      avp_len_byte [OF v2] by (simp add: nat_add_distrib)
  have g2: "gint (int pos + int (avp_len a) - 1) = int pos + int (avp_len a) - 1"
    using fits len small by (intro gint_id) simp_all
  have ens: "\<exists>r. tvb_ensure_length_remaining tvb (int pos + int (avp_len a) - 1) = Inr r"
    using tvb_ensure_length_remaining_in_range [of "int pos + int (avp_len a) - 1" tvb] fits len
    by simp
  have g3: "gint (int pos + 2) = int pos + 2"
    using fits len small by (intro gint_id) simp_all
  have u2: "guint32 (int (avp_len a) - 2) = int (avp_len a) - 2"
    using len by (intro guint32_id) simp_all
  obtain r where r: "tvb_ensure_length_remaining tvb (int pos + int (avp_len a) - 1) = Inr r"
    using ens by blast
  show ?thesis
    using len
    by (simp add: avp_step_def off ty g1 lb g2 r g3 u2 Let_def
          RADIUS_VENDOR_SPECIFIC_CODE_def RADIUS_EAP_MESSAGE_CODE_def
          cong: sum.case_cong prod.case_cong)
qed

lemma avp_tag_cases:
  assumes "0 \<le> off" "off + al \<le> int (length tvb)" "int (length tvb) < 2147483648"
    "0 \<le> al" "tagged e \<longrightarrow> 1 \<le> al"
  shows "\<exists>tag off2 len2. avp_tag tvb e off al = Inr (tag, off2, len2) \<and>
           0 \<le> off2 \<and> 0 \<le> len2 \<and> off2 + len2 = off + al \<and>
           (tag = None \<longrightarrow> off2 = off \<and> len2 = al)"
proof (cases "tagged e")
  case False
  then show ?thesis using assms by (simp add: avp_tag_def)
next
  case True
  then have al1: "1 \<le> al" using assms by simp
  have rd: "tvb_get_guint8 tvb off = Inr (uint (tvb ! nat off))"
    using assms al1 by (intro tvb_get_guint8_at) simp_all
  have g: "gint (off + 1) = off + 1" using assms al1 by (intro gint_id) simp_all
  have u: "guint32 (al - 1) = al - 1" using assms al1 by (intro guint32_id) simp_all
  show ?thesis using True rd g u assms al1 by (simp add: avp_tag_def)
qed

lemma avp_value_in_range:
  assumes "0 \<le> off" "0 \<le> al" "off + al \<le> int (length tvb)" "int (length tvb) < 2147483648"
    "decoder_returns e"
  shows "snd (avp_value env tvb e off al) = None"
proof -
  have g: "gint al = al" using assms by (intro gint_id) simp_all
  show ?thesis
  proof (cases "dissector e")
    case (Some f)
    then have "\<exists>str. f x = Inr str" for x using assms by (simp add: decoder_returns_def)
    then obtain str where "f (take (nat al) (drop (nat off) tvb)) = Inr str" by blast
    then show ?thesis
      using Some assms g
      by (simp add: avp_value_def tvb_new_subset_def tvb_get_ptr_in_range)
  next
    case None
    then obtain ty where ty: "type e = Some ty" using assms by (auto simp: decoder_returns_def)
    have "snd (call_type ty env e tvb off al) = None"
      using assms by (intro call_type_in_range) simp_all
    then show ?thesis using None ty g by (auto simp: avp_value_def split: prod.splits)
  qed
qed

lemma avp_attribute_in_range:
  assumes "0 \<le> off" "0 \<le> al" "off + al \<le> int (length tvb)" "int (length tvb) < 2147483648"
    "decoder_returns e" "tagged e \<longrightarrow> 1 \<le> al"
  shows "\<exists>texts'. avp_attribute env tvb e io il texts off al s =
           Continue [AvpItem io il texts'] (s\<lparr>ws_offset := off + al\<rparr>)"
proof -
  obtain tag off2 len2 where t: "avp_tag tvb e off al = Inr (tag, off2, len2)"
    and r: "0 \<le> off2" "0 \<le> len2" "off2 + len2 = off + al"
    using avp_tag_cases [of off al tvb e] assms by blast
  have v: "snd (avp_value env tvb e off2 len2) = None"
    using r assms by (intro avp_value_in_range) simp_all
  have g: "gint (off2 + len2) = off + al" using r assms by (simp add: gint_id)
  obtain vt where vt: "avp_value env tvb e off2 len2 = (vt, None)"
    using v by (cases "avp_value env tvb e off2 len2") auto
  show ?thesis
    using t vt g by (simp add: avp_attribute_def Let_def)
qed

lemma avp_at_value_slice:
  assumes at: "avp_at tvb pos a" and k: "i + k \<le> length (snd a)"
  shows "take k (drop (pos + 2 + i) tvb) = take k (drop i (snd a))"
proof -
  have "take k (drop i (take (length (snd a)) (drop (pos + 2) tvb))) = take k (drop i (snd a))"
    using avp_at_value [OF at] by simp
  moreover have "k \<le> length (snd a) - i" using k by simp
  ultimately show ?thesis by (simp add: drop_take add.commute min_def)
qed

lemma tvb_get_ptr_value:
  assumes at: "avp_at tvb pos a" and k: "i + k \<le> length (snd a)"
  shows "tvb_get_ptr tvb (int pos + 2 + int i) (int k) = Inr (take k (drop i (snd a)))"
proof -
  have fits: "pos + avp_len a \<le> length tvb" using at by (simp add: avp_at_def)
  have "tvb_get_ptr tvb (int pos + 2 + int i) (int k)
      = Inr (take (nat (int k)) (drop (nat (int pos + 2 + int i)) tvb))"
    using fits k by (intro tvb_get_ptr_in_range) (simp_all add: avp_len_def)
  moreover have "nat (int pos + 2 + int i) = pos + 2 + i" by simp
  ultimately show ?thesis using avp_at_value_slice [OF at k] by simp
qed

lemma tvb_get_guint8_value:
  assumes at: "avp_at tvb pos a" and k: "i < length (snd a)"
  shows "tvb_get_guint8 tvb (int pos + 2 + int i) = Inr (uint (snd a ! i))"
proof -
  have "take 1 (drop i (snd a)) = [snd a ! i]"
    using k by (simp add: take_Suc_conv_app_nth hd_drop_conv_nth take_Suc)
  then show ?thesis
    using tvb_get_ptr_value [OF at, of i 1] k by (simp add: tvb_get_guint8_def)
qed

lemma avp_vendor_specific_at:
  assumes at: "avp_at tvb pos a" and ty: "fst a = 26" and v6: "6 \<le> length (snd a)"
    and small: "int (length tvb) < 2147483648"
  shows "avp_vendor_specific d tvb (int pos) = Inr (avp_header_texts d a, avp_entry d a)"
proof -
  have fits: "pos + avp_len a \<le> length tvb" using at by (simp add: avp_at_def)
  have g2: "gint (int pos + 2) = int pos + 2 + int 0"
    using fits v6 small by (simp add: gint_id avp_len_def)
  have g6: "gint (int pos + 6) = int pos + 2 + int 4"
    using fits v6 small by (simp add: gint_id avp_len_def)
  have g7: "gint (int pos + 7) = int pos + 2 + int 5"
    using fits v6 small by (simp add: gint_id avp_len_def)
  have vid: "tvb_get_ntohl tvb (int pos + 2 + int 0) = Inr (be_uint (take 4 (snd a)))"
    using tvb_get_ptr_value [OF at, of 0 4] v6 by (simp add: tvb_get_ntohl_def)
  have st: "tvb_get_guint8 tvb (int pos + 2 + int 4) = Inr (uint (snd a ! 4))"
    using v6 by (intro tvb_get_guint8_value [OF at]) simp
  have sl: "tvb_get_guint8 tvb (int pos + 2 + int 5) = Inr (uint (snd a ! 5))"
    using v6 by (intro tvb_get_guint8_value [OF at]) simp
  show ?thesis
    unfolding avp_vendor_specific_def g2 g6 g7 vid st sl
    by (simp add: avp_header_texts_def avp_entry_def ty Let_def split: option.splits)
qed

lemma avp_step_attribute:
  assumes at: "avp_at tvb pos a" and wf: "wf_avp a" and ne: "fst a \<noteq> 79"
    and off: "ws_offset s = int pos"
    and small: "int (length tvb) < 2147483648"
  shows "avp_step env tvb s =
     avp_attribute env tvb (avp_entry (dict env) a) (int pos) (int (avp_len a))
       (avp_header_texts (dict env) a)
       (int pos + int (avp_header_size a)) (int (avp_len a) - int (avp_header_size a))
       (s\<lparr>ws_length := gint (ws_length s - int (avp_len a))\<rparr>)"
proof -
  have v: "1 \<le> length (snd a)" "length (snd a) \<le> 253" using wf by (simp_all add: wf_avp_def)
  have fits: "pos + avp_len a \<le> length tvb" using at by (simp add: avp_at_def)
  note hdr = avp_step_header [OF at v off small, of env]
  show ?thesis
  proof (cases "fst a = 26")
    case True
    then have v6: "6 \<le> length (snd a)" using wf by (simp add: wf_avp_def)
    have g8: "gint (int pos + 8) = int pos + 8"
      using fits v6 small by (simp add: gint_id avp_len_def)
    have u8: "guint32 (int (avp_len a) - 8) = int (avp_len a) - 8"
      using v6 v by (simp add: guint32_id avp_len_def)
    show ?thesis
      using True hdr avp_vendor_specific_at [OF at True v6 small, of "dict env"] g8 u8
      by (simp add: avp_header_size_def Let_def)
  next
    case False
    then show ?thesis
      using hdr ne by (simp add: avp_header_size_def avp_entry_def avp_header_texts_def Let_def)
  qed
qed

lemma avp_step_eap:
  assumes at: "avp_at tvb pos a" and ty: "fst a = 79"
    and v1: "1 \<le> length (snd a)" and v2: "length (snd a) \<le> 253"
    and off: "ws_offset s = int pos"
    and small: "int (length tvb) < 2147483648"
    and tot0: "0 \<le> ws_eap_tot_len s"
    and room: "ws_eap_tot_len s + int (length (snd a)) \<le> 4096"
    and buf0: "length (ws_eap_buffer s) = 4096"
    and seg0: "0 \<le> ws_eap_seg_num s" "ws_eap_seg_num s < 4294967295"
  shows "avp_step env tvb s =
     (let tot = ws_eap_tot_len s + int (length (snd a));
          buf = take (nat (ws_eap_tot_len s)) (ws_eap_buffer s) @ snd a @
                drop (nat (ws_eap_tot_len s) + length (snd a)) (ws_eap_buffer s);
          num = ws_eap_seg_num s + 1;
          s1 = s\<lparr>ws_offset := int pos + int (avp_len a),
                   ws_length := gint (ws_length s - int (avp_len a)),
                   ws_eap_buffer := buf, ws_eap_seg_num := num, ws_eap_tot_len := tot\<rparr>
      in if ws_last_eap s \<or> \<not> next_is_eap tvb (pos + avp_len a) then
           Continue [AvpItem (int pos) (int (avp_len a)) [EapLastSegmentText num],
                     DataSource (take (nat tot) buf)]
             (s1\<lparr>ws_last_eap := True, ws_eap_tvb := Some (take (nat tot) buf)\<rparr>)
         else Continue [AvpItem (int pos) (int (avp_len a)) [EapSegmentText num]] s1)"
proof -
  have fits: "pos + avp_len a \<le> length tvb" using at by (simp add: avp_at_def)
  have len: "avp_len a = length (snd a) + 2" by (simp add: avp_len_def)
  note hdr = avp_step_header [OF at v1 v2 off small, of env]
  have seglen: "guint32 (int (avp_len a) - 2) = int (length (snd a))"
    using v2 by (simp add: guint32_id len)
  have guard: "guint32 (ws_eap_tot_len s + int (length (snd a))) = ws_eap_tot_len s + int (length (snd a))"
    using tot0 room by (intro guint32_id) simp_all
  have g2: "gint (int pos + 2) = int pos + 2 + int 0"
    using fits small by (simp add: gint_id len)
  have gl: "gint (int (length (snd a))) = int (length (snd a))"
    using v2 by (simp add: gint_id)
  have cp: "tvb_memcpy tvb (int pos + 2 + int 0) (int (length (snd a))) = Inr (snd a)"
    using tvb_get_ptr_value [OF at, of 0 "length (snd a)"] by (simp add: tvb_memcpy_def)
  have wr: "buffer_write (ws_eap_buffer s) (ws_eap_tot_len s) (snd a) =
      Some (take (nat (ws_eap_tot_len s)) (ws_eap_buffer s) @ snd a @
                drop (nat (ws_eap_tot_len s) + length (snd a)) (ws_eap_buffer s))"
    using tot0 room buf0 by (simp add: buffer_write_def)
  have num: "guint32 (ws_eap_seg_num s + 1) = ws_eap_seg_num s + 1"
    using seg0 by (intro guint32_id) simp_all
  have g3: "gint (guint32 (int (avp_len a) + 3)) = int (avp_len a) + 3"
    using v2 by (simp add: gint_id guint32_id len)
  have gn: "gint (int pos + int (avp_len a)) = int pos + int (avp_len a)"
    using fits small by (simp add: gint_id)
  have ex: "tvb_bytes_exist tvb (int pos) (int (avp_len a) + 3) = (pos + avp_len a + 3 \<le> length tvb)"
    using tvb_bytes_exist_iff [of "int pos" "int (avp_len a) + 3" tvb] by auto
  have nx: "tvb_get_guint8 tvb (int pos + int (avp_len a)) = Inr (uint (tvb ! (pos + avp_len a)))"
    if "pos + avp_len a + 3 \<le> length tvb"
    using tvb_get_guint8_at [of "int pos + int (avp_len a)" tvb] that by (simp add: nat_add_distrib)
  show ?thesis
  proof (cases "pos + avp_len a + 3 \<le> length tvb")
    case True
    show ?thesis
      using hdr ty seglen guard g2 gl cp wr num g3 gn ex nx [OF True] True room
      by (simp add: avp_eap_message_def Let_def MAX_RADIUS_PACKET_SIZE_def next_is_eap_def
            RADIUS_EAP_MESSAGE_CODE_def)
  next
    case False
    show ?thesis
      using hdr ty seglen guard g2 gl cp wr num g3 gn ex False room
      by (simp add: avp_eap_message_def Let_def MAX_RADIUS_PACKET_SIZE_def next_is_eap_def
            RADIUS_EAP_MESSAGE_CODE_def)
  qed
qed

lemma avp_step_eap_too_long:
  assumes at: "avp_at tvb pos a" and ty: "fst a = 79"
    and v1: "1 \<le> length (snd a)" and v2: "length (snd a) \<le> 253"
    and off: "ws_offset s = int pos"
    and small: "int (length tvb) < 2147483648"
    and tot0: "0 \<le> ws_eap_tot_len s" "ws_eap_tot_len s \<le> 4096"
    and over: "4096 < ws_eap_tot_len s + int (length (snd a))"
  shows "avp_step env tvb s =
     Stop [AvpItem (int pos) (int (avp_len a)) [],
           TextItem (int pos) 0 ''[Eap-Message longer than maximum radius packet size]'']
       EapTooLong (s\<lparr>ws_length := gint (ws_length s - int (avp_len a))\<rparr>)"
proof -
  have len: "avp_len a = length (snd a) + 2" by (simp add: avp_len_def)
  note hdr = avp_step_header [OF at v1 v2 off small, of env]
  have seglen: "guint32 (int (avp_len a) - 2) = int (length (snd a))"
    using v2 by (simp add: guint32_id len)
  have guard: "guint32 (ws_eap_tot_len s + int (length (snd a))) = ws_eap_tot_len s + int (length (snd a))"
    using tot0 v2 by (intro guint32_id) simp_all
  show ?thesis
    using hdr ty seglen guard over
    by (simp add: avp_eap_message_def Let_def MAX_RADIUS_PACKET_SIZE_def)
qed

lemma take_written:
  "n \<le> length buf \<Longrightarrow> take (n + length v) (take n buf @ v @ rest) = take n buf @ v"
  by simp

lemma written_length:
  "n + length v \<le> length buf \<Longrightarrow> length (take n buf @ v @ drop (n + length v) buf) = length buf"
  by auto

lemma avp_step_wf:
  assumes at: "avp_at tvb pos a" and wf: "wf_avp a" and dec: "decodable (dict env) a"
    and off: "ws_offset s = int pos"
    and small: "int (length tvb) < 2147483648"
    and tot0: "0 \<le> ws_eap_tot_len s"
    and room: "fst a = 79 \<longrightarrow> ws_eap_tot_len s + int (length (snd a)) \<le> 4096"
    and buf0: "length (ws_eap_buffer s) = 4096"
    and seg0: "0 \<le> ws_eap_seg_num s" "ws_eap_seg_num s < 4294967295"
    and len0: "int (avp_len a) \<le> ws_length s" "ws_length s < 2147483648"
  shows "\<exists>evs s1. avp_step env tvb s = Continue evs s1 \<and>
      ws_offset s1 = int (pos + avp_len a) \<and>
      ws_length s1 = ws_length s - int (avp_len a) \<and>
      avp_items evs = [(int pos, int (avp_len a))] \<and>
      (\<forall>e\<in>set evs. \<not> is_call e) \<and>
      length (ws_eap_buffer s1) = 4096 \<and>
      ws_eap_tot_len s1 = ws_eap_tot_len s + (if fst a = 79 then int (length (snd a)) else 0) \<and>
      take (nat (ws_eap_tot_len s1)) (ws_eap_buffer s1) =
        take (nat (ws_eap_tot_len s)) (ws_eap_buffer s) @ (if fst a = 79 then snd a else []) \<and>
      ws_eap_seg_num s1 = ws_eap_seg_num s + (if fst a = 79 then 1 else 0) \<and>
      ws_last_eap s1 = (if fst a = 79 then ws_last_eap s \<or> \<not> next_is_eap tvb (pos + avp_len a)
                        else ws_last_eap s) \<and>
      ws_eap_tvb s1 = (if fst a = 79 \<and> ws_last_eap s1
                       then Some (take (nat (ws_eap_tot_len s1)) (ws_eap_buffer s1))
                       else ws_eap_tvb s)"
proof -
  have v: "1 \<le> length (snd a)" "length (snd a) \<le> 253" using wf by (simp_all add: wf_avp_def)
  have fits: "pos + avp_len a \<le> length tvb" using at by (simp add: avp_at_def)
  have gl: "gint (ws_length s - int (avp_len a)) = ws_length s - int (avp_len a)"
    using len0 by (intro gint_id) simp_all
  show ?thesis
  proof (cases "fst a = 79")
    case True
    have room': "ws_eap_tot_len s + int (length (snd a)) \<le> 4096" using room True by simp
    have n: "nat (ws_eap_tot_len s + int (length (snd a))) = nat (ws_eap_tot_len s) + length (snd a)"
      using tot0 by (simp add: nat_add_distrib)
    have le: "nat (ws_eap_tot_len s) \<le> length (ws_eap_buffer s)"
      using tot0 room' buf0 by simp
    have tk: "take (nat (ws_eap_tot_len s) + length (snd a))
         (take (nat (ws_eap_tot_len s)) (ws_eap_buffer s) @ snd a @
          drop (nat (ws_eap_tot_len s) + length (snd a)) (ws_eap_buffer s)) =
        take (nat (ws_eap_tot_len s)) (ws_eap_buffer s) @ snd a"
      using le by (rule take_written)
    have ln: "length (take (nat (ws_eap_tot_len s)) (ws_eap_buffer s) @ snd a @
          drop (nat (ws_eap_tot_len s) + length (snd a)) (ws_eap_buffer s)) = 4096"
      using written_length [of "nat (ws_eap_tot_len s)" "snd a" "ws_eap_buffer s"] tot0 room' buf0
      by simp
    define tot where "tot = ws_eap_tot_len s + int (length (snd a))"
    define buf where "buf = take (nat (ws_eap_tot_len s)) (ws_eap_buffer s) @ snd a @
          drop (nat (ws_eap_tot_len s) + length (snd a)) (ws_eap_buffer s)"
    define last where "last = (ws_last_eap s \<or> \<not> next_is_eap tvb (pos + avp_len a))"
    define s1 where "s1 = s\<lparr>ws_offset := int pos + int (avp_len a),
                   ws_length := gint (ws_length s - int (avp_len a)),
                   ws_eap_buffer := buf, ws_eap_seg_num := ws_eap_seg_num s + 1,
                   ws_eap_tot_len := tot\<rparr>"
    define s2 where "s2 = (if last then s1\<lparr>ws_last_eap := True, ws_eap_tvb := Some (take (nat tot) buf)\<rparr> else s1)"
    define evs where "evs = (if last
        then [AvpItem (int pos) (int (avp_len a)) [EapLastSegmentText (ws_eap_seg_num s + 1)],
              DataSource (take (nat tot) buf)]
        else [AvpItem (int pos) (int (avp_len a)) [EapSegmentText (ws_eap_seg_num s + 1)]])"
    have st: "avp_step env tvb s = Continue evs s2"
      using avp_step_eap [OF at True v off small tot0 room' buf0 seg0, of env]
      by (simp add: Let_def tot_def buf_def last_def s1_def s2_def evs_def)
    have tk': "take (nat tot) buf = take (nat (ws_eap_tot_len s)) (ws_eap_buffer s) @ snd a"
      using tk by (simp add: tot_def buf_def n)
    have ln': "length buf = 4096" using ln by (simp add: buf_def)
    have f1: "ws_offset s2 = int (pos + avp_len a)" by (simp add: s2_def s1_def)
    have f2: "ws_length s2 = ws_length s - int (avp_len a)" by (simp add: s2_def s1_def gl)
    have f3: "avp_items evs = [(int pos, int (avp_len a))]" by (simp add: evs_def)
    have f4: "\<forall>e\<in>set evs. \<not> is_call e" by (simp add: evs_def)
    have f5: "length (ws_eap_buffer s2) = 4096" by (simp add: s2_def s1_def ln')
    have f6: "ws_eap_tot_len s2 = ws_eap_tot_len s + int (length (snd a))"
      by (simp add: s2_def s1_def tot_def)
    have f7: "take (nat (ws_eap_tot_len s2)) (ws_eap_buffer s2) =
           take (nat (ws_eap_tot_len s)) (ws_eap_buffer s) @ snd a"
      using tk' by (simp add: s2_def s1_def)
    have f8: "ws_eap_seg_num s2 = ws_eap_seg_num s + 1" by (simp add: s2_def s1_def)
    have f9: "ws_last_eap s2 = (ws_last_eap s \<or> \<not> next_is_eap tvb (pos + avp_len a))"
      by (auto simp: s2_def s1_def last_def)
    have f10: "ws_eap_tvb s2 = (if ws_last_eap s2
                          then Some (take (nat (ws_eap_tot_len s2)) (ws_eap_buffer s2))
                          else ws_eap_tvb s)"
      unfolding f9 by (auto simp: s2_def s1_def last_def)
    have f11: "ws_last_eap s2 = (if fst a = 79 then ws_last_eap s \<or> \<not> next_is_eap tvb (pos + avp_len a)
                        else ws_last_eap s)"
      using f9 True by simp
    show ?thesis
      using True st f1 f2 f3 f4 f5 f6 f7 f8 f10 f11 by (intro exI [of _ evs] exI [of _ s2]) simp
  next
    case False
    have hs: "avp_header_size a \<le> avp_len a" "avp_header_size a \<ge> 2"
      using wf by (auto simp: avp_header_size_def avp_len_def wf_avp_def)
    have dr: "decoder_returns (avp_entry (dict env) a)"
      and tg: "tagged (avp_entry (dict env) a) \<longrightarrow> avp_header_size a < avp_len a"
      using dec False by (simp_all add: decodable_def)
    obtain texts' where at': "avp_attribute env tvb (avp_entry (dict env) a) (int pos) (int (avp_len a))
       (avp_header_texts (dict env) a)
       (int pos + int (avp_header_size a)) (int (avp_len a) - int (avp_header_size a))
       (s\<lparr>ws_length := gint (ws_length s - int (avp_len a))\<rparr>) =
       Continue [AvpItem (int pos) (int (avp_len a)) texts']
         (s\<lparr>ws_length := gint (ws_length s - int (avp_len a)),
            ws_offset := int pos + int (avp_header_size a) + (int (avp_len a) - int (avp_header_size a))\<rparr>)"
      using avp_attribute_in_range [of "int pos + int (avp_header_size a)"
          "int (avp_len a) - int (avp_header_size a)" tvb "avp_entry (dict env) a" env "int pos"
          "int (avp_len a)" "avp_header_texts (dict env) a"
          "s\<lparr>ws_length := gint (ws_length s - int (avp_len a))\<rparr>"]
        hs fits small dr tg by auto
    show ?thesis
      using avp_step_attribute [OF at wf False off small, of env] at' False gl buf0 by simp
  qed
qed

lemma avp_loop_after_steps:
  "avp_steps env tvb n s = Some (evs, s') \<Longrightarrow>
   avp_loop env tvb s =
     (avp_loop env tvb s')\<lparr>w_events := evs @ w_events (avp_loop env tvb s'),
                            w_iterations := n + w_iterations (avp_loop env tvb s')\<rparr>"
proof (induction n arbitrary: s evs)
  case 0
  then show ?case by simp
next
  case (Suc n)
  from Suc.prems obtain evs1 s1 evs2 where
    st: "avp_step env tvb s = Continue evs1 s1" and pos: "0 < ws_length s1"
    and rest: "avp_steps env tvb n s1 = Some (evs2, s')" and evs: "evs = evs1 @ evs2"
    by (auto split: step_result.splits if_splits option.splits)
  have "avp_loop env tvb s =
      (avp_loop env tvb s1)\<lparr>w_events := evs1 @ w_events (avp_loop env tvb s1),
                            w_iterations := Suc (w_iterations (avp_loop env tvb s1))\<rparr>"
    using st pos by (simp add: avp_loop.simps [of env tvb s] Let_def)
  then show ?case using Suc.IH [OF rest] evs by simp
qed

lemma eap_last_True: "eap_last tvb pos True as = True"
  by (induction as arbitrary: pos) auto

lemma eap_last_no_eap: "eap_values as = [] \<Longrightarrow> eap_last tvb pos b as = b"
  by (induction as arbitrary: pos) (auto simp: eap_values_def split: if_splits)

lemma avp_items_append: "avp_items (xs @ ys) = avp_items xs @ avp_items ys"
  by (induction xs rule: avp_items.induct) auto

lemma avp_steps_wf:
  assumes "avps_at tvb pos as"
    and "\<forall>a\<in>set as. wf_avp a \<and> decodable (dict env) a"
    and "ws_offset s = int pos"
    and "int (length tvb) < 2147483648"
    and "0 \<le> ws_eap_tot_len s"
    and "ws_eap_tot_len s + int (length (concat (eap_values as))) \<le> 4096"
    and "length (ws_eap_buffer s) = 4096"
    and "0 \<le> ws_eap_seg_num s" "ws_eap_seg_num s + int (length as) < 4294967296"
    and "int (avps_len as) < ws_length s" "ws_length s < 2147483648"
  shows "\<exists>evs s'. avp_steps env tvb (length as) s = Some (evs, s') \<and>
      ws_offset s' = int (pos + avps_len as) \<and>
      ws_length s' = ws_length s - int (avps_len as) \<and>
      avp_items evs = avp_positions pos as \<and>
      (\<forall>e\<in>set evs. \<not> is_call e) \<and>
      length (ws_eap_buffer s') = 4096 \<and>
      ws_eap_tot_len s' = ws_eap_tot_len s + int (length (concat (eap_values as))) \<and>
      take (nat (ws_eap_tot_len s')) (ws_eap_buffer s') =
        take (nat (ws_eap_tot_len s)) (ws_eap_buffer s) @ concat (eap_values as) \<and>
      ws_eap_seg_num s' = ws_eap_seg_num s + int (length (eap_values as)) \<and>
      ws_last_eap s' = eap_last tvb pos (ws_last_eap s) as \<and>
      ws_eap_tvb s' = (if eap_values as \<noteq> [] \<and> ws_last_eap s'
                       then Some (take (nat (ws_eap_tot_len s')) (ws_eap_buffer s'))
                       else ws_eap_tvb s)"
  using assms
proof (induction as arbitrary: pos s)
  case Nil
  then show ?case by (simp add: avps_len_def eap_values_def)
next
  case (Cons a as)
  have at: "avp_at tvb pos a" and ats: "avps_at tvb (pos + avp_len a) as"
    using Cons.prems(1) by simp_all
  have wf: "wf_avp a" and dec: "decodable (dict env) a"
    and rest_ok: "\<forall>a\<in>set as. wf_avp a \<and> decodable (dict env) a"
    using Cons.prems(2) by simp_all
  have lens: "avps_len (a # as) = avp_len a + avps_len as" by (simp add: avps_len_def)
  have ev: "int (length (concat (eap_values (a # as)))) =
      (if fst a = 79 then int (length (snd a)) else 0) + int (length (concat (eap_values as)))"
    by (simp add: eap_values_def)
  have en: "int (length (eap_values (a # as))) =
      (if fst a = 79 then 1 else 0) + int (length (eap_values as))"
    by (simp add: eap_values_def)
  have ec: "concat (eap_values (a # as)) = (if fst a = 79 then snd a else []) @ concat (eap_values as)"
    by (simp add: eap_values_def)
  have nonneg: "0 \<le> (if fst a = 79 then int (length (snd a)) else 0)"
     "0 \<le> (if fst a = 79 then (1::int) else 0)" "(if fst a = 79 then (1::int) else 0) \<le> 1"
    by simp_all
  have room: "fst a = 79 \<longrightarrow> ws_eap_tot_len s + int (length (snd a)) \<le> 4096"
    using Cons.prems(6) ev by (cases "fst a = 79") simp_all
  have seg: "ws_eap_seg_num s < 4294967295" using Cons.prems(9) by simp
  have len0: "int (avp_len a) \<le> ws_length s" using Cons.prems(10) lens by simp
  from avp_step_wf [OF at wf dec Cons.prems(3) Cons.prems(4) Cons.prems(5) room Cons.prems(7)
        Cons.prems(8) seg len0 Cons.prems(11)]
  obtain evs1 s1 where
    st: "avp_step env tvb s = Continue evs1 s1"
    and o1: "ws_offset s1 = int (pos + avp_len a)"
    and l1: "ws_length s1 = ws_length s - int (avp_len a)"
    and i1: "avp_items evs1 = [(int pos, int (avp_len a))]"
    and c1: "\<forall>e\<in>set evs1. \<not> is_call e"
    and b1: "length (ws_eap_buffer s1) = 4096"
    and t1: "ws_eap_tot_len s1 = ws_eap_tot_len s + (if fst a = 79 then int (length (snd a)) else 0)"
    and k1: "take (nat (ws_eap_tot_len s1)) (ws_eap_buffer s1) =
        take (nat (ws_eap_tot_len s)) (ws_eap_buffer s) @ (if fst a = 79 then snd a else [])"
    and n1: "ws_eap_seg_num s1 = ws_eap_seg_num s + (if fst a = 79 then 1 else 0)"
    and d1: "ws_last_eap s1 = (if fst a = 79 then ws_last_eap s \<or> \<not> next_is_eap tvb (pos + avp_len a)
                        else ws_last_eap s)"
    and tv1: "ws_eap_tvb s1 = (if fst a = 79 \<and> ws_last_eap s1
                       then Some (take (nat (ws_eap_tot_len s1)) (ws_eap_buffer s1))
                       else ws_eap_tvb s)"
    by blast
  have p1: "0 \<le> ws_eap_tot_len s1" using t1 Cons.prems(5) nonneg by linarith
  have p2: "ws_eap_tot_len s1 + int (length (concat (eap_values as))) \<le> 4096"
    using t1 Cons.prems(6) ev by linarith
  have p3: "0 \<le> ws_eap_seg_num s1" using n1 Cons.prems(8) nonneg by linarith
  have p4: "ws_eap_seg_num s1 + int (length as) < 4294967296"
    using n1 Cons.prems(9) nonneg by simp
  have p5: "int (avps_len as) < ws_length s1" using l1 Cons.prems(10) lens by simp
  have p6: "ws_length s1 < 2147483648" using l1 Cons.prems(11) by simp
  from Cons.IH [OF ats rest_ok o1 Cons.prems(4) p1 p2 b1 p3 p4 p5 p6]
  obtain evs2 s' where
    run: "avp_steps env tvb (length as) s1 = Some (evs2, s')"
    and o2: "ws_offset s' = int (pos + avp_len a + avps_len as)"
    and l2: "ws_length s' = ws_length s1 - int (avps_len as)"
    and i2: "avp_items evs2 = avp_positions (pos + avp_len a) as"
    and c2: "\<forall>e\<in>set evs2. \<not> is_call e"
    and b2: "length (ws_eap_buffer s') = 4096"
    and t2: "ws_eap_tot_len s' = ws_eap_tot_len s1 + int (length (concat (eap_values as)))"
    and k2: "take (nat (ws_eap_tot_len s')) (ws_eap_buffer s') =
        take (nat (ws_eap_tot_len s1)) (ws_eap_buffer s1) @ concat (eap_values as)"
    and n2: "ws_eap_seg_num s' = ws_eap_seg_num s1 + int (length (eap_values as))"
    and d2: "ws_last_eap s' = eap_last tvb (pos + avp_len a) (ws_last_eap s1) as"
    and v2: "ws_eap_tvb s' = (if eap_values as \<noteq> [] \<and> ws_last_eap s'
                       then Some (take (nat (ws_eap_tot_len s')) (ws_eap_buffer s'))
                       else ws_eap_tvb s1)"
    by blast
  have pos1: "0 < ws_length s1" using p5 by simp
  have r0: "avp_steps env tvb (length (a # as)) s = Some (evs1 @ evs2, s')"
    using st pos1 run by simp
  have r1: "ws_offset s' = int (pos + avps_len (a # as))" using o2 lens by (simp add: add.assoc)
  have r2: "ws_length s' = ws_length s - int (avps_len (a # as))" using l2 l1 lens by simp
  have r3: "avp_items (evs1 @ evs2) = avp_positions pos (a # as)"
    using i1 i2 by (simp add: avp_items_append)
  have r4: "\<forall>e\<in>set (evs1 @ evs2). \<not> is_call e" using c1 c2 by auto
  have r6: "ws_eap_tot_len s' = ws_eap_tot_len s + int (length (concat (eap_values (a # as))))"
    using t2 t1 ev by linarith
  have r7: "take (nat (ws_eap_tot_len s')) (ws_eap_buffer s') =
        take (nat (ws_eap_tot_len s)) (ws_eap_buffer s) @ concat (eap_values (a # as))"
    using k2 k1 ec by simp
  have r8: "ws_eap_seg_num s' = ws_eap_seg_num s + int (length (eap_values (a # as)))"
    using n2 n1 en by linarith
  have r9: "ws_last_eap s' = eap_last tvb pos (ws_last_eap s) (a # as)"
    using d2 d1 by simp
  have r10: "ws_eap_tvb s' = (if eap_values (a # as) \<noteq> [] \<and> ws_last_eap s'
                       then Some (take (nat (ws_eap_tot_len s')) (ws_eap_buffer s'))
                       else ws_eap_tvb s)"
  proof (cases "fst a = 79")
    case False
    then have "ws_eap_tvb s1 = ws_eap_tvb s" using tv1 by simp
    moreover have "(eap_values (a # as) \<noteq> []) = (eap_values as \<noteq> [])"
      using False by (simp add: eap_values_def)
    ultimately show ?thesis using v2 by simp
  next
    case True
    have ne: "eap_values (a # as) \<noteq> []" using True by (simp add: eap_values_def)
    have tv1': "ws_eap_tvb s1 = (if ws_last_eap s1
                          then Some (take (nat (ws_eap_tot_len s1)) (ws_eap_buffer s1))
                          else ws_eap_tvb s)"
      using tv1 True by simp
    show ?thesis
    proof (cases "eap_values as = []")
      case True
      then have same: "ws_last_eap s' = ws_last_eap s1" using d2 eap_last_no_eap by simp
      have "take (nat (ws_eap_tot_len s')) (ws_eap_buffer s') =
            take (nat (ws_eap_tot_len s1)) (ws_eap_buffer s1)"
        using k2 True by simp
      then show ?thesis using v2 True ne tv1' same by simp
    next
      case False
      have mono: "ws_last_eap s1 \<Longrightarrow> ws_last_eap s'"
        using d2 eap_last_True by simp
      show ?thesis using v2 False ne tv1' mono by auto
    qed
  qed
  show ?case
    using r0 r1 r2 r3 r4 b2 r6 r7 r8 r9 r10 by blast
qed

subsection \<open>A bound on the iterations\<close>

lemma avp_loop_iterations:
  "0 < ws_length s \<Longrightarrow> ws_length s < 2147483648 \<Longrightarrow>
   int (w_iterations (avp_loop env tvb s)) \<le> (ws_length s + 2) div 3"
proof (induction env tvb s rule: avp_loop.induct)
  case (1 env tvb s)
  show ?case
  proof (cases "avp_step env tvb s")
    case (Stop evs r s')
    then show ?thesis using "1.prems" by (simp add: avp_loop.simps [of env tvb s])
  next
    case (Continue evs s')
    from avp_step_Continue_length [OF Continue] obtain al where
      al: "3 \<le> al" "al \<le> 255" "ws_length s' = gint (ws_length s - al)" by blast
    have l': "ws_length s' = ws_length s - al"
      using al "1.prems" by (simp add: gint_id)
    show ?thesis
    proof (cases "0 < ws_length s'")
      case False
      then show ?thesis
        using Continue "1.prems" by (simp add: avp_loop.simps [of env tvb s])
    next
      case True
      have "int (w_iterations (avp_loop env tvb s')) \<le> (ws_length s' + 2) div 3"
        using "1.IH" [OF Continue True] True l' "1.prems" al by simp
      moreover have "(ws_length s' + 2) div 3 + 1 \<le> (ws_length s + 2) div 3"
        using l' al by simp
      ultimately show ?thesis
        using Continue True by (simp add: avp_loop.simps [of env tvb s] Let_def)
    qed
  qed
qed

subsection \<open>Whole runs of the walker\<close>

lemma unknown_avp_entry: "unknown_avp d a \<Longrightarrow> avp_entry d a = no_dictionary_entry"
  by (auto simp: unknown_avp_def avp_entry_def split: option.splits if_splits)

lemma avp_attribute_unknown:
  assumes "0 \<le> off" "0 \<le> al" "off + al \<le> int (length tvb)" "int (length tvb) < 2147483648"
  shows "avp_attribute env tvb no_dictionary_entry io il texts off al s =
           Continue [AvpItem io il (texts @ [LengthField al,
                        ValueText [BytesText (take (nat al) (drop (nat off) tvb))]])]
             (s\<lparr>ws_offset := off + al\<rparr>)"
proof -
  have g: "gint al = al" "gint (off + al) = off + al" using assms by (simp_all add: gint_id)
  have item: "proto_tree_add_item tvb off al = None"
    using assms by (intro proto_tree_add_item_in_range) simp_all
  have ptr: "tvb_get_ptr tvb off al = Inr (take (nat al) (drop (nat off) tvb))"
    using assms by (intro tvb_get_ptr_in_range) simp_all
  have v: "avp_value env tvb no_dictionary_entry off al =
      ([ValueText [BytesText (take (nat al) (drop (nat off) tvb))]], None)"
    using g item ptr
    by (simp add: avp_value_def no_dictionary_entry_def radius_octets_def tvb_bytes_to_str_def)
  have t: "avp_tag tvb no_dictionary_entry off al = Inr (None, off, al)"
    by (simp add: avp_tag_def no_dictionary_entry_def)
  show ?thesis using v t g by (simp add: avp_attribute_def Let_def)
qed

lemma fmt_u_242: "fmt_u 242 = ''242''"
  by (simp add: fmt_u.simps [of 242] fmt_u.simps [of 24] fmt_u.simps [of 2])

lemma register_top_level_example:
  "map_option name (attrs_by_id (radius_register_avp_dissector
       \<lparr>attrs_by_id = Map.empty, vendors_by_id = Map.empty, vendors_by_name = Map.empty\<rparr>
       fresh 0 242 dissect_cosine_vpvc) 242) = Some ''Unknown-Attribute-242''"
  by (simp add: radius_register_avp_dissector_def install_avp_dissector_def Let_def fmt_u_242)

lemma tvb_get_ptr_length:
  "tvb_get_ptr tvb off len = Inr p \<Longrightarrow> 0 \<le> len \<Longrightarrow> length p = nat len"
  by (auto simp: tvb_get_ptr_def compute_offset_length_def Let_def split: if_splits)

lemma avp_attribute_Stop:
  "avp_attribute env tvb entry io il texts off al s = Stop evs r s' \<Longrightarrow>
   s' = s \<and> (\<exists>e. r = Threw e)"
  by (auto simp: avp_attribute_def Let_def split: sum.splits prod.splits option.splits)

lemma avp_eap_message_inv:
  assumes inv: "eap_inv s" and al: "3 \<le> al" "al \<le> 255"
  shows "case avp_eap_message tvb off al s of
           Continue evs s' \<Rightarrow> eap_inv s'
         | Stop evs r s' \<Rightarrow> r \<noteq> BufferOverrun \<and> eap_inv s'"
proof -
  have tot: "0 \<le> ws_eap_tot_len s" "ws_eap_tot_len s \<le> 4096" "length (ws_eap_buffer s) = 4096"
    using inv by (simp_all add: eap_inv_def MAX_RADIUS_PACKET_SIZE_def)
  have sl: "guint32 (al - 2) = al - 2" using al by (intro guint32_id) simp_all
  have gs: "gint (al - 2) = al - 2" using al by (intro gint_id) simp_all
  have gd: "guint32 (ws_eap_tot_len s + (al - 2)) = ws_eap_tot_len s + (al - 2)"
    using al tot by (intro guint32_id) simp_all
  show ?thesis
  proof (cases "4096 < ws_eap_tot_len s + (al - 2)")
    case True
    then show ?thesis
      using inv sl gd by (simp add: avp_eap_message_def Let_def MAX_RADIUS_PACKET_SIZE_def)
  next
    case False
    show ?thesis
    proof (cases "tvb_memcpy tvb (gint (off + 2)) (al - 2)")
      case (Inl e)
      then show ?thesis
        using inv sl gs gd False
        by (simp add: avp_eap_message_def Let_def MAX_RADIUS_PACKET_SIZE_def)
    next
      case (Inr seg)
      have ls: "length seg = nat (al - 2)"
        using Inr al by (intro tvb_get_ptr_length [of tvb "gint (off + 2)" "al - 2"])
          (simp_all add: tvb_memcpy_def)
      define buf where "buf = take (nat (ws_eap_tot_len s)) (ws_eap_buffer s) @ seg @
            drop (nat (ws_eap_tot_len s) + length seg) (ws_eap_buffer s)"
      have wr: "buffer_write (ws_eap_buffer s) (ws_eap_tot_len s) seg = Some buf"
        using tot False ls al by (simp add: buffer_write_def buf_def)
      have lb: "length buf = 4096"
        using written_length [of "nat (ws_eap_tot_len s)" seg "ws_eap_buffer s"] tot False ls al
        by (simp add: buf_def)
      define s1 where "s1 = s\<lparr>ws_eap_buffer := buf,
                        ws_eap_tot_len := ws_eap_tot_len s + (al - 2),
                        ws_eap_seg_num := guint32 (ws_eap_seg_num s + 1)\<rparr>"
      have inv1: "eap_inv s1"
        using tot False lb al by (simp add: eap_inv_def s1_def MAX_RADIUS_PACKET_SIZE_def)
      have inv2: "eap_inv (s1\<lparr>ws_last_eap := x, ws_eap_tvb := y, ws_offset := z\<rparr>)" for x y z
        using inv1 by (simp add: eap_inv_def)
      have inv3: "eap_inv (s1\<lparr>ws_offset := z\<rparr>)" for z
        using inv1 by (simp add: eap_inv_def)
      show ?thesis
        using sl gs gd False Inr wr inv1 inv2 inv3
        by (simp add: avp_eap_message_def Let_def MAX_RADIUS_PACKET_SIZE_def s1_def [symmetric]
              split: sum.splits bool.splits)
    qed
  qed
qed

lemma avp_step_inv:
  assumes inv: "eap_inv s"
  shows "case avp_step env tvb s of
           Continue evs s' \<Rightarrow> eap_inv s'
         | Stop evs r s' \<Rightarrow> r \<noteq> BufferOverrun \<and> eap_inv s'"
proof (cases "tvb_get_guint8 tvb (ws_offset s)")
  case (Inl e)
  then show ?thesis using inv by (simp add: avp_step_def)
next
  case ty: (Inr avp_type)
  show ?thesis
  proof (cases "tvb_get_guint8 tvb (gint (ws_offset s + 1))")
    case (Inl e)
    then show ?thesis using inv ty by (simp add: avp_step_def)
  next
    case al: (Inr avp_length)
    have r: "0 \<le> avp_length \<and> avp_length \<le> 255" using al by (rule tvb_get_guint8_range)
    define s1 where "s1 = s\<lparr>ws_length := gint (ws_length s - avp_length)\<rparr>"
    have inv1: "eap_inv s1" using inv by (simp add: eap_inv_def s1_def)
    have attr: "case avp_attribute env tvb entry io il texts off2 len2 s1 of
           Continue evs s' \<Rightarrow> eap_inv s'
         | Stop evs r s' \<Rightarrow> r \<noteq> BufferOverrun \<and> eap_inv s'" for entry io il texts off2 len2
    proof (cases "avp_attribute env tvb entry io il texts off2 len2 s1")
      case (Continue evs s')
      then obtain o' where "s' = s1\<lparr>ws_offset := o'\<rparr>"
        using avp_attribute_Continue by blast
      then show ?thesis using Continue inv1 by (simp add: eap_inv_def)
    next
      case (Stop evs r s')
      then have "s' = s1 \<and> (\<exists>e. r = Threw e)" by (rule avp_attribute_Stop)
      then show ?thesis using Stop inv1 by auto
    qed
    show ?thesis
    proof (cases "avp_length < 3")
      case True
      then show ?thesis using inv ty al by (simp add: avp_step_def)
    next
      case False
      then have ge: "3 \<le> avp_length" by simp
      note eap = avp_eap_message_inv [OF inv1 ge, of tvb "ws_offset s"]
      show ?thesis
        using ty al False inv1 attr eap r
        by (simp add: avp_step_def Let_def s1_def [symmetric] split: sum.splits prod.splits)
    qed
  qed
qed

lemma avp_loop_inv:
  "eap_inv s \<Longrightarrow>
   w_end (avp_loop env tvb s) \<noteq> BufferOverrun \<and> eap_inv (w_state (avp_loop env tvb s))"
proof (induction env tvb s rule: avp_loop.induct)
  case (1 env tvb s)
  note inv = avp_step_inv [OF "1.prems", of env tvb]
  show ?case
  proof (cases "avp_step env tvb s")
    case (Stop evs r s')
    then show ?thesis using inv by (simp add: avp_loop.simps [of env tvb s])
  next
    case (Continue evs s')
    then have inv': "eap_inv s'" using inv by simp
    show ?thesis
    proof (cases "0 < ws_length s'")
      case True
      then show ?thesis
        using Continue "1.IH" [OF Continue True inv']
        by (simp add: avp_loop.simps [of env tvb s] Let_def)
    next
      case False
      then show ?thesis
        using Continue inv' by (simp add: avp_loop.simps [of env tvb s])
    qed
  qed
qed

lemma avp_steps_inv:
  "avp_steps env tvb n s = Some (evs, s') \<Longrightarrow> eap_inv s \<Longrightarrow> eap_inv s'"
proof (induction n arbitrary: s evs)
  case 0
  then show ?case by simp
next
  case (Suc n)
  from Suc.prems(1) obtain evs1 s1 evs2 where
    st: "avp_step env tvb s = Continue evs1 s1"
    and rest: "avp_steps env tvb n s1 = Some (evs2, s')"
    by (auto split: step_result.splits if_splits option.splits)
  have "eap_inv s1" using avp_step_inv [OF Suc.prems(2), of env tvb] st by simp
  then show ?case using Suc.IH [OF rest] by simp
qed

lemma length_encode_avp: "length (encode_avp a) = avp_len a"
  by (simp add: encode_avp_def avp_len_def)

lemma avp_at_encode: "avp_at (pre @ encode_avp a @ rest) (length pre) a"
  by (simp add: avp_at_def length_encode_avp)

lemma avps_at_encode:
  "avps_at (pre @ concat (map encode_avp as) @ rest) (length pre) as"
proof (induction as arbitrary: pre)
  case Nil
  then show ?case by simp
next
  case (Cons a as)
  have "avps_at ((pre @ encode_avp a) @ concat (map encode_avp as) @ rest)
          (length (pre @ encode_avp a)) as"
    by (rule Cons.IH)
  then show ?case using avp_at_encode [of pre a "concat (map encode_avp as) @ rest"]
    by (simp add: length_encode_avp)
qed

lemma avps_len_append: "avps_len (as @ bs) = avps_len as + avps_len bs"
  by (simp add: avps_len_def)

lemma avps_at_append:
  "avps_at tvb pos (as @ bs) = (avps_at tvb pos as \<and> avps_at tvb (pos + avps_len as) bs)"
  by (induction as arbitrary: pos) (auto simp: avps_len_def add.assoc)

lemma avps_at_fits:
  "avps_at tvb pos as \<Longrightarrow> as \<noteq> [] \<Longrightarrow> pos + avps_len as \<le> length tvb"
proof (induction as arbitrary: pos)
  case Nil
  then show ?case by simp
next
  case (Cons a as)
  show ?case
  proof (cases "as = []")
    case True
    then show ?thesis using Cons.prems by (simp add: avps_len_def avp_at_def)
  next
    case False
    then have "pos + avp_len a + avps_len as \<le> length tvb"
      using Cons.IH [of "pos + avp_len a"] Cons.prems by simp
    then show ?thesis by (simp add: avps_len_def)
  qed
qed

lemma eap_values_append: "eap_values (as @ bs) = eap_values as @ eap_values bs"
  by (simp add: eap_values_def)

lemma avp_positions_append:
  "avp_positions pos (as @ bs) = avp_positions pos as @ avp_positions (pos + avps_len as) bs"
  by (induction as arbitrary: pos) (auto simp: avps_len_def add.assoc)

lemma eap_last_append:
  "eap_last tvb pos b (as @ bs) = eap_last tvb (pos + avps_len as) (eap_last tvb pos b as) bs"
  by (induction as arbitrary: pos b) (auto simp: avps_len_def add.assoc)

lemma avp_loop_wf:
  assumes ats: "avps_at tvb pos as" and ne: "as \<noteq> []"
    and ok: "\<forall>a\<in>set as. wf_avp a \<and> decodable (dict env) a"
    and off: "ws_offset s = int pos"
    and small: "int (length tvb) < 2147483648"
    and tot0: "0 \<le> ws_eap_tot_len s"
    and room: "ws_eap_tot_len s + int (length (concat (eap_values as))) \<le> 4096"
    and buf0: "length (ws_eap_buffer s) = 4096"
    and seg0: "0 \<le> ws_eap_seg_num s" "ws_eap_seg_num s + int (length as) < 4294967296"
    and len0: "ws_length s = int (avps_len as)"
  shows "\<exists>evs s'. avp_loop env tvb s =
        \<lparr>w_events = evs, w_end = LoopDone, w_state = s', w_iterations = length as\<rparr> \<and>
      ws_offset s' = int (pos + avps_len as) \<and>
      ws_length s' = 0 \<and>
      avp_items evs = avp_positions pos as \<and>
      (\<forall>e\<in>set evs. \<not> is_call e) \<and>
      length (ws_eap_buffer s') = 4096 \<and>
      ws_eap_tot_len s' = ws_eap_tot_len s + int (length (concat (eap_values as))) \<and>
      take (nat (ws_eap_tot_len s')) (ws_eap_buffer s') =
        take (nat (ws_eap_tot_len s)) (ws_eap_buffer s) @ concat (eap_values as) \<and>
      ws_last_eap s' = eap_last tvb pos (ws_last_eap s) as \<and>
      ws_eap_tvb s' = (if eap_values as \<noteq> [] \<and> ws_last_eap s'
                       then Some (take (nat (ws_eap_tot_len s')) (ws_eap_buffer s'))
                       else ws_eap_tvb s)"
proof -
  obtain bs c where as: "as = bs @ [c]" using ne by (metis append_butlast_last_id)
  have fits: "pos + avps_len as \<le> length tvb" using ats ne by (rule avps_at_fits)
  have lens: "avps_len as = avps_len bs + avp_len c" by (simp add: as avps_len_def)
  have ats1: "avps_at tvb pos bs" and atc: "avp_at tvb (pos + avps_len bs) c"
    using ats by (simp_all add: as avps_at_append)
  have ok1: "\<forall>a\<in>set bs. wf_avp a \<and> decodable (dict env) a"
    and wfc: "wf_avp c" and decc: "decodable (dict env) c"
    using ok by (simp_all add: as)
  have cpos: "0 < avp_len c" by (simp add: avp_len_def)
  have ev: "int (length (concat (eap_values as))) =
      int (length (concat (eap_values bs))) + (if fst c = 79 then int (length (snd c)) else 0)"
    by (simp add: as eap_values_def)
  have ec: "concat (eap_values as) = concat (eap_values bs) @ (if fst c = 79 then snd c else [])"
    by (simp add: as eap_values_def)
  have nonneg: "0 \<le> (if fst c = 79 then int (length (snd c)) else 0)" by simp
  have room1: "ws_eap_tot_len s + int (length (concat (eap_values bs))) \<le> 4096"
    using room ev nonneg by linarith
  have seg1: "ws_eap_seg_num s + int (length bs) < 4294967296" using seg0 by (simp add: as)
  have len1: "int (avps_len bs) < ws_length s" using len0 lens cpos by simp
  have len2: "ws_length s < 2147483648" using len0 fits small by simp
  from avp_steps_wf [OF ats1 ok1 off small tot0 room1 buf0 seg0(1) seg1 len1 len2]
  obtain evs1 s1 where
    run: "avp_steps env tvb (length bs) s = Some (evs1, s1)"
    and o1: "ws_offset s1 = int (pos + avps_len bs)"
    and l1: "ws_length s1 = ws_length s - int (avps_len bs)"
    and i1: "avp_items evs1 = avp_positions pos bs"
    and c1: "\<forall>e\<in>set evs1. \<not> is_call e"
    and b1: "length (ws_eap_buffer s1) = 4096"
    and t1: "ws_eap_tot_len s1 = ws_eap_tot_len s + int (length (concat (eap_values bs)))"
    and k1: "take (nat (ws_eap_tot_len s1)) (ws_eap_buffer s1) =
        take (nat (ws_eap_tot_len s)) (ws_eap_buffer s) @ concat (eap_values bs)"
    and n1: "ws_eap_seg_num s1 = ws_eap_seg_num s + int (length (eap_values bs))"
    and d1: "ws_last_eap s1 = eap_last tvb pos (ws_last_eap s) bs"
    and v1: "ws_eap_tvb s1 = (if eap_values bs \<noteq> [] \<and> ws_last_eap s1
                       then Some (take (nat (ws_eap_tot_len s1)) (ws_eap_buffer s1))
                       else ws_eap_tvb s)"
    by blast
  have q1: "0 \<le> ws_eap_tot_len s1" using t1 tot0 by simp
  have q2: "fst c = 79 \<longrightarrow> ws_eap_tot_len s1 + int (length (snd c)) \<le> 4096"
    using t1 room ev by (cases "fst c = 79") simp_all
  have q3: "0 \<le> ws_eap_seg_num s1" using n1 seg0 by simp
  have "length (eap_values bs) \<le> length bs" by (simp add: eap_values_def)
  then have q4: "ws_eap_seg_num s1 < 4294967295" using n1 seg0 by (simp add: as)
  have q5: "int (avp_len c) \<le> ws_length s1" using l1 len0 lens by simp
  have q6: "ws_length s1 < 2147483648" using l1 len2 by simp
  from avp_step_wf [OF atc wfc decc o1 small q1 q2 b1 q3 q4 q5 q6]
  obtain evs2 s2 where
    st: "avp_step env tvb s1 = Continue evs2 s2"
    and o2: "ws_offset s2 = int (pos + avps_len bs + avp_len c)"
    and l2: "ws_length s2 = ws_length s1 - int (avp_len c)"
    and i2: "avp_items evs2 = [(int (pos + avps_len bs), int (avp_len c))]"
    and c2: "\<forall>e\<in>set evs2. \<not> is_call e"
    and b2: "length (ws_eap_buffer s2) = 4096"
    and t2: "ws_eap_tot_len s2 = ws_eap_tot_len s1 + (if fst c = 79 then int (length (snd c)) else 0)"
    and k2: "take (nat (ws_eap_tot_len s2)) (ws_eap_buffer s2) =
        take (nat (ws_eap_tot_len s1)) (ws_eap_buffer s1) @ (if fst c = 79 then snd c else [])"
    and d2: "ws_last_eap s2 = (if fst c = 79
                 then ws_last_eap s1 \<or> \<not> next_is_eap tvb (pos + avps_len bs + avp_len c)
                 else ws_last_eap s1)"
    and v2: "ws_eap_tvb s2 = (if fst c = 79 \<and> ws_last_eap s2
                       then Some (take (nat (ws_eap_tot_len s2)) (ws_eap_buffer s2))
                       else ws_eap_tvb s1)"
    by blast
  have z: "ws_length s2 = 0" using l2 l1 len0 lens by simp
  have last_step: "avp_loop env tvb s1 =
      \<lparr>w_events = evs2, w_end = LoopDone, w_state = s2, w_iterations = 1\<rparr>"
    using st z by (simp add: avp_loop.simps [of env tvb s1])
  have r0: "avp_loop env tvb s =
      \<lparr>w_events = evs1 @ evs2, w_end = LoopDone, w_state = s2, w_iterations = length as\<rparr>"
    using avp_loop_after_steps [OF run] last_step by (simp add: as)
  have r1: "ws_offset s2 = int (pos + avps_len as)" using o2 lens by (simp add: add.assoc)
  have r3: "avp_items (evs1 @ evs2) = avp_positions pos as"
    using i1 i2 by (simp add: as avp_items_append avp_positions_append)
  have r4: "\<forall>e\<in>set (evs1 @ evs2). \<not> is_call e" using c1 c2 by auto
  have r6: "ws_eap_tot_len s2 = ws_eap_tot_len s + int (length (concat (eap_values as)))"
    using t2 t1 ev by linarith
  have r7: "take (nat (ws_eap_tot_len s2)) (ws_eap_buffer s2) =
        take (nat (ws_eap_tot_len s)) (ws_eap_buffer s) @ concat (eap_values as)"
    using k2 k1 ec by simp
  have r9: "ws_last_eap s2 = eap_last tvb pos (ws_last_eap s) as"
    using d2 d1 by (simp add: as eap_last_append)
  have r10: "ws_eap_tvb s2 = (if eap_values as \<noteq> [] \<and> ws_last_eap s2
                       then Some (take (nat (ws_eap_tot_len s2)) (ws_eap_buffer s2))
                       else ws_eap_tvb s)"
  proof (cases "fst c = 79")
    case True
    then have ne': "eap_values as \<noteq> []" by (simp add: as eap_values_def)
    have "\<not> ws_last_eap s2 \<Longrightarrow> \<not> ws_last_eap s1" using d2 True by simp
    then show ?thesis using v2 v1 True ne' by auto
  next
    case False
    have same: "eap_values as = eap_values bs" using False by (simp add: as eap_values_def)
    have "ws_last_eap s2 = ws_last_eap s1" using d2 False by simp
    moreover have "take (nat (ws_eap_tot_len s2)) (ws_eap_buffer s2) =
        take (nat (ws_eap_tot_len s1)) (ws_eap_buffer s1)"
      using k2 False by simp
    ultimately show ?thesis using v2 v1 False same by simp
  qed
  show ?thesis
    using r0 r1 z r3 r4 b2 r6 r7 r9 r10 by blast
qed

lemma length_le_avps_len: "length as \<le> avps_len as"
  by (induction as) (auto simp: avps_len_def avp_len_def)

lemma avp_items_call: "avp_items (evs @ [CallEapDissector b]) = avp_items evs"
  by (simp add: avp_items_append)

lemma eap_last_detected:
  assumes "avps_at tvb pos as" and "\<forall>a\<in>set as. wf_avp a" and "as \<noteq> []"
    and "fst (last as) \<noteq> 79 \<or> \<not> next_is_eap tvb (pos + avps_len as)"
  shows "eap_last tvb pos b as = (b \<or> eap_values as \<noteq> [])"
  using assms
proof (induction as arbitrary: pos b)
  case Nil
  then show ?case by simp
next
  case (Cons a as)
  show ?case
  proof (cases "as = []")
    case True
    then show ?thesis using Cons.prems by (auto simp: eap_values_def avps_len_def)
  next
    case False
    then obtain a' as' where as: "as = a' # as'" by (cases as) auto
    have at': "avp_at tvb (pos + avp_len a) a'" and wf': "wf_avp a'"
      using Cons.prems by (simp_all add: as)
    have "pos + avp_len a + avp_len a' \<le> length tvb" using at' by (simp add: avp_at_def)
    moreover have "3 \<le> avp_len a'" using wf' by (simp add: wf_avp_def avp_len_def)
    ultimately have nx: "next_is_eap tvb (pos + avp_len a) = (fst a' = 79)"
      using avp_at_type [OF at'] by (simp add: next_is_eap_def)
    have last: "fst (last as) \<noteq> 79 \<or> \<not> next_is_eap tvb (pos + avp_len a + avps_len as)"
      using Cons.prems(4) False by (simp add: avps_len_def add.assoc)
    have ih: "eap_last tvb (pos + avp_len a) b' as = (b' \<or> eap_values as \<noteq> [])" for b'
      using Cons.IH [of "pos + avp_len a" b'] Cons.prems False last by simp
    have ev': "fst a' = 79 \<Longrightarrow> eap_values as \<noteq> []" by (simp add: as eap_values_def)
    show ?thesis
      using ih nx ev' by (auto simp: eap_values_def)
  qed
qed

lemma eap_values_replicate:
  "eap_values (replicate n (79, v)) = replicate n v"
  by (induction n) (simp_all add: eap_values_def)

lemma avps_len_replicate: "avps_len (replicate n a) = n * avp_len a"
  by (induction n) (simp_all add: avps_len_def)

lemma length_concat_replicate: "length (concat (replicate n v)) = n * length v"
  by (induction n) simp_all

lemma eap_flood_at: "avps_at eap_flood_tvb 20 eap_flood_avps"
  using avps_at_encode [of "replicate 20 0" eap_flood_avps "[]"]
  by (simp add: eap_flood_tvb_def)

lemma eap_flood_length: "length eap_flood_tvb = 4358"
  by (simp add: eap_flood_tvb_def eap_flood_avps_def length_concat_replicate encode_avp_def
        avp_len_def comp_def sum_list_replicate)

lemma eap_flood_run:
  "\<exists>evs s. avp_steps empty_env eap_flood_tvb 16 (walker_init (replicate 4096 0) 20 4338)
              = Some (evs, s) \<and>
     ws_offset s = 4100 \<and> ws_length s = 258 \<and> ws_eap_tot_len s = 4048"
proof -
  let ?frag = "(79, replicate 253 0) :: raw_avp"
  let ?bs = "replicate 16 ?frag"
  have split: "eap_flood_avps = ?bs @ [?frag, (1, [0x61])]"
    by (simp add: eap_flood_avps_def)
  have ats: "avps_at eap_flood_tvb 20 ?bs"
    using eap_flood_at by (simp add: split avps_at_append)
  have ok: "\<forall>a\<in>set ?bs. wf_avp a \<and> decodable (dict empty_env) a"
    by (simp add: wf_avp_def decodable_def)
  from avp_steps_wf [OF ats ok, of "walker_init (replicate 4096 0) 20 4338"]
  show ?thesis
    by (auto simp: walker_init_def eap_flood_length eap_values_replicate avps_len_replicate
          length_concat_replicate avp_len_def)
qed

lemma eap_flood_17th: "avp_at eap_flood_tvb 4100 (79, replicate 253 0)"
proof -
  let ?frag = "(79, replicate 253 0) :: raw_avp"
  have split: "eap_flood_avps = replicate 16 ?frag @ [?frag, (1, [0x61])]"
    by (simp add: eap_flood_avps_def)
  show ?thesis
    using eap_flood_at
    by (simp add: split avps_at_append avps_len_replicate avp_len_def)
qed

lemma eap_flood_result:
  "w_end (dissect_attribute_value_pairs empty_env eap_flood_tvb (replicate 4096 0) 20 4338)
     = EapTooLong \<and>
   w_iterations (dissect_attribute_value_pairs empty_env eap_flood_tvb (replicate 4096 0) 20 4338)
     = 17 \<and>
   ws_offset (w_state (dissect_attribute_value_pairs empty_env eap_flood_tvb (replicate 4096 0)
                         20 4338)) = 4100 \<and>
   ws_length (w_state (dissect_attribute_value_pairs empty_env eap_flood_tvb (replicate 4096 0)
                         20 4338)) = 3"
proof -
  obtain evs s where
    steps: "avp_steps empty_env eap_flood_tvb 16 (walker_init (replicate 4096 0) 20 4338)
              = Some (evs, s)"
    and o: "ws_offset s = 4100" and l: "ws_length s = 258" and t: "ws_eap_tot_len s = 4048"
    using eap_flood_run by blast
  have o': "ws_offset s = int 4100" using o by simp
  have small: "int (length eap_flood_tvb) < 2147483648" by (simp add: eap_flood_length)
  have st: "avp_step empty_env eap_flood_tvb s =
     Stop [AvpItem (int 4100) (int (avp_len (79, replicate 253 0))) [],
           TextItem (int 4100) 0 ''[Eap-Message longer than maximum radius packet size]'']
       EapTooLong (s\<lparr>ws_length := gint (ws_length s - int (avp_len (79, replicate 253 0)))\<rparr>)"
    using t by (intro avp_step_eap_too_long [OF eap_flood_17th _ _ _ o' small]) simp_all
  have g: "gint (ws_length s - int (avp_len (79, replicate 253 0))) = 3"
    using l by (simp add: avp_len_def gint_def)
  have "avp_loop empty_env eap_flood_tvb s =
      \<lparr>w_events = [AvpItem (int 4100) (int (avp_len (79, replicate 253 0))) [],
           TextItem (int 4100) 0 ''[Eap-Message longer than maximum radius packet size]''],
        w_end = EapTooLong, w_state = s\<lparr>ws_length := 3\<rparr>, w_iterations = 1\<rparr>"
    using st g by (simp add: avp_loop.simps [of empty_env eap_flood_tvb s])
  then have "avp_loop empty_env eap_flood_tvb (walker_init (replicate 4096 0) 20 4338) =
      \<lparr>w_events = evs @ [AvpItem (int 4100) (int (avp_len (79, replicate 253 0))) [],
           TextItem (int 4100) 0 ''[Eap-Message longer than maximum radius packet size]''],
        w_end = EapTooLong, w_state = s\<lparr>ws_length := 3\<rparr>, w_iterations = 17\<rparr>"
    using avp_loop_after_steps [OF steps] by simp
  then show ?thesis using o by (simp add: dissect_attribute_value_pairs_def)
qed

lemma dissect_cosine_vpvc_returns: "\<exists>str. dissect_cosine_vpvc x = Inr str"
proof (cases "tvb_length x = 4")
  case False
  then show ?thesis by (simp add: dissect_cosine_vpvc_def)
next
  case True
  then have l: "length x = 4" by (simp add: tvb_length_def)
  have "\<exists>p. tvb_get_ptr x 0 2 = Inr p" "\<exists>p. tvb_get_ptr x 2 2 = Inr p"
    using l by (simp_all add: tvb_get_ptr_in_range)
  then show ?thesis
    using True by (auto simp: dissect_cosine_vpvc_def tvb_get_ntohs_def)
qed

lemma sample_decodable: "\<forall>a\<in>set sample_avps. decodable (dict sample_env) a"
  using dissect_cosine_vpvc_returns
  by (simp add: sample_avps_def sample_env_def sample_dict_def decodable_def avp_entry_def
        decoder_returns_def avp_header_size_def avp_len_def)

lemma sample_events:
  "w_events (dissect_attribute_value_pairs sample_env sample_tvb (replicate 4096 0) 20 27) =
     [AvpItem 20 6 [AttrText ''Tunnel-Type'' 64, LengthField 4, TagText 1,
                    ValueText [EnumText ''L2TP'' 3]],
      AvpItem 26 12 [VendorText ''CoSine'' 3085, AttrText ''CoSine-VPI-VCI'' 5, LengthField 4,
                     DissectorText ''1/2''],
      AvpItem 38 5 [EapLastSegmentText 1], DataSource [1, 2, 3],
      AvpItem 43 4 [AttrText ''User-Name'' 1, LengthField 2, ValueText [FormatText [0x61, 0x62]]],
      CallEapDissector [1, 2, 3]]"
  by code_simp

lemma eap_sample_events:
  "w_events (dissect_attribute_value_pairs sample_env eap_sample_tvb (replicate 4096 0) 20 35) =
     [AvpItem 20 12 [EapSegmentText 1],
      AvpItem 32 12 [EapSegmentText 2],
      AvpItem 44 7 [EapLastSegmentText 3],
      DataSource [1, 2, 3, 4, 5, 6, 7, 8, 9, 10, 11, 12, 13, 14, 15, 16, 17, 18, 19, 20, 21, 22,
                  23, 24, 25],
      AvpItem 51 4 [AttrText ''User-Name'' 1, LengthField 2, ValueText [FormatText [0x61, 0x62]]],
      CallEapDissector [1, 2, 3, 4, 5, 6, 7, 8, 9, 10, 11, 12, 13, 14, 15, 16, 17, 18, 19, 20,
                        21, 22, 23, 24, 25]]"
  by code_simp

lemma short_vendor_specific_at_end:
  "dissect_attribute_value_pairs sample_env (take 27 short_vsa_tvb) (replicate 4096 0) 20 7 =
     \<lparr>w_events = [AvpItem 20 7 []],
      w_end = Threw BoundsError,
      w_state = \<lparr>ws_offset = 20, ws_length = 0, ws_last_eap = False,
                  ws_eap_buffer = replicate 4096 0, ws_eap_seg_num = 0, ws_eap_tot_len = 0,
                  ws_eap_tvb = None\<rparr>,
      w_iterations = 1\<rparr>"
  by code_simp

text \<open>A tagged descriptor: what \<open>avp_attribute\<close> does with the first byte of the value.\<close>

lemma avp_attribute_tagged:
  assumes tg: "tagged entry"
    and rd: "tvb_get_guint8 tvb off = Inr b"
    and al: "0 < avp_length" "avp_length < 4294967296"
    and off: "- 2147483648 \<le> off" "off + 1 < 2147483648"
  shows "avp_attribute env tvb entry item_off item_len texts off avp_length s =
           (let (tag_texts, off2, len2) =
                  (if b \<le> 0x1F then ([TagText b], off + 1, avp_length - 1)
                   else ([], off, avp_length))
            in case avp_value env tvb entry off2 len2 of
                 (vt, Some e) \<Rightarrow>
                   Stop [AvpItem item_off item_len (texts @ [LengthField avp_length] @ tag_texts @ vt)]
                     (Threw e) s
               | (vt, None) \<Rightarrow>
                   Continue [AvpItem item_off item_len (texts @ [LengthField avp_length] @ tag_texts @ vt)]
                     (s\<lparr>ws_offset := gint (off2 + len2)\<rparr>))"
proof -
  have g: "gint (off + 1) = off + 1" using off by (intro gint_id) simp_all
  have u: "guint32 (avp_length - 1) = avp_length - 1" using al by (intro guint32_id) simp_all
  have tag: "avp_tag tvb entry off avp_length =
           (if b \<le> 0x1F then Inr (Some b, off + 1, avp_length - 1)
            else Inr (None, off, avp_length))"
    using tg rd g u by (simp add: avp_tag_def)
  show ?thesis
  proof (cases "b \<le> 0x1F")
    case True
    then show ?thesis using tag by (simp add: avp_attribute_def Let_def)
  next
    case False
    then show ?thesis using tag by (simp add: avp_attribute_def Let_def)
  qed
qed

text \<open>The item of the first iteration is the first event of the function.\<close>

lemma dissect_first_event:
  assumes "\<exists>s'. avp_step env tvb (walker_init eap_buffer off len) = Continue [item] s' \<or>
                (\<exists>r. avp_step env tvb (walker_init eap_buffer off len) = Stop [item] r s')"
    and "len \<noteq> 0"
  shows "\<exists>rest. w_events (dissect_attribute_value_pairs env tvb eap_buffer off len) = item # rest"
proof -
  define s0 where "s0 = walker_init eap_buffer off len"
  have "\<exists>rest. w_events (avp_loop env tvb s0) = item # rest"
    using assms(1) unfolding s0_def [symmetric]
    by (auto simp: avp_loop.simps [of env tvb s0] Let_def)
  then show ?thesis
    using assms(2)
    by (auto simp: dissect_attribute_value_pairs_def s0_def [symmetric] Let_def
          split: option.splits)
qed

section \<open>The claims\<close>

subsection \<open>C1: a vendor-specific AVP shorter than 8 bytes\<close>

text \<open>
  C1 says that a vendor-specific AVP whose declared length is at least 3 and less than 8
  is reported as malformed and ends the walk. The walker has no such check: at the
  packet below (declared length 7) it reads the vendor id and the sub-type, takes the
  next AVP's type byte for the sub-length, computes the value length \<open>7 - 8\<close> in
  unsigned arithmetic (4294967295), emits the decoded item and goes on with the next
  AVP. The theorem is the run of the code at that packet.
\<close>

theorem short_vendor_specific_decoded:
  "dissect_attribute_value_pairs sample_env short_vsa_tvb (replicate 4096 0) 20 17 =
     \<lparr>w_events =
        [AvpItem 20 7 [VendorText ''Cisco'' 9, AttrText ''Cisco-Address'' 1,
                       LengthField 4294967295, ValueText [WrongLengthIPText]],
         AvpItem 27 10 [AttrText ''User-Name'' 1, LengthField 8,
                        ValueText [FormatText [0x74, 0x65, 0x73, 0x74, 0x75, 0x73, 0x65, 0x72]]]],
      w_end = LoopDone,
      w_state = \<lparr>ws_offset = 37, ws_length = 0, ws_last_eap = False,
                  ws_eap_buffer = replicate 4096 0, ws_eap_seg_num = 0, ws_eap_tot_len = 0,
                  ws_eap_tvb = None\<rparr>,
      w_iterations = 2\<rparr>"
  by code_simp

subsection \<open>C2: the walker advances by the declared lengths\<close>

text \<open>
  C2 says that on every packet whose AVP region is a well-formed sequence of AVPs the
  walker advances past each AVP by its declared length and ends with nothing of the
  region left. \<open>tagged_vsa_tvb\<close> is such a packet: 34 bytes in the buffer and by its
  length field, a User-Name AVP of declared length 6 and a vendor-specific AVP of
  declared length 8, whose value is empty. The descriptor of the vendor attribute is
  marked tagged, and the walker reads the tag byte without looking at the length of the
  value: here the byte after the last byte of the buffer. The function is left by the
  exception, the vendor-specific AVP is not walked. The theorem is the run of the code at
  that packet.
\<close>

theorem tagged_empty_value_throws:
  "length tagged_vsa_tvb = 34 \<and>
   be_uint (take 2 (drop 2 tagged_vsa_tvb)) = 34 \<and>
   avps_at tagged_vsa_tvb 20 [(1, [0x75, 0x73, 0x65, 0x72]), (26, [0, 0, 0, 9, 1, 2])] \<and>
   avps_len [(1, [0x75, 0x73, 0x65, 0x72]), (26, [0, 0, 0, 9, 1, 2])] = 14 \<and>
   w_events (dissect_attribute_value_pairs tagged_vsa_env tagged_vsa_tvb (replicate 4096 0) 20 14) =
     [AvpItem 20 6 [AttrText ''User-Name'' 1, LengthField 4,
                    ValueText [FormatText [0x75, 0x73, 0x65, 0x72]]],
      AvpItem 26 8 [VendorText ''Cisco'' 9, AttrText ''Cisco-Tagged'' 1, LengthField 0]] \<and>
   w_end (dissect_attribute_value_pairs tagged_vsa_env tagged_vsa_tvb (replicate 4096 0) 20 14) =
     Threw BoundsError \<and>
   w_iterations (dissect_attribute_value_pairs tagged_vsa_env tagged_vsa_tvb (replicate 4096 0) 20 14)
     = 2"
  by code_simp

text \<open>
  With that case set aside the walker is in step with the declared lengths: on a buffer
  that holds a non-empty sequence of well-formed AVPs from \<open>pos\<close> on, whose
  EAP-Message values together are at most \<open>MAX_RADIUS_PACKET_SIZE\<close> bytes (so on every
  packet of at most 4096 bytes) and whose AVPs the dictionary can decode (\<open>decodable\<close>:
  a custom decoder returns, a value decoder is set, a tagged descriptor has a value byte
  for the tag), the loop runs to its end in one iteration per AVP, the item of each AVP
  stands where the previous AVP's declared length ends, and at the end the offset is
  past the last AVP and the remaining length is 0.
\<close>

theorem walker_lockstep:
  assumes ats: "avps_at tvb pos as" and ne: "as \<noteq> []"
    and wf: "\<forall>a\<in>set as. wf_avp a"
    and dec: "\<forall>a\<in>set as. decodable (dict env) a"
    and eap: "int (length (concat (eap_values as))) \<le> MAX_RADIUS_PACKET_SIZE"
    and buf: "int (length eap_buffer) = MAX_RADIUS_PACKET_SIZE"
    and small: "int (length tvb) < 2147483648"
  shows "w_end (dissect_attribute_value_pairs env tvb eap_buffer (int pos) (int (avps_len as)))
           = LoopDone \<and>
         w_iterations (dissect_attribute_value_pairs env tvb eap_buffer (int pos) (int (avps_len as)))
           = length as \<and>
         avp_items (w_events (dissect_attribute_value_pairs env tvb eap_buffer (int pos)
                                (int (avps_len as))))
           = avp_positions pos as \<and>
         ws_offset (w_state (dissect_attribute_value_pairs env tvb eap_buffer (int pos)
                               (int (avps_len as))))
           = int (pos + avps_len as) \<and>
         ws_length (w_state (dissect_attribute_value_pairs env tvb eap_buffer (int pos)
                               (int (avps_len as))))
           = 0"
proof -
  define s0 where "s0 = walker_init eap_buffer (int pos) (int (avps_len as))"
  have ok: "\<forall>a\<in>set as. wf_avp a \<and> decodable (dict env) a" using wf dec by simp
  have fits: "pos + avps_len as \<le> length tvb" using ats ne by (rule avps_at_fits)
  have n: "int (length as) < 4294967296"
    using length_le_avps_len [of as] fits small by simp
  have pos_len: "0 < avps_len as" using ne length_le_avps_len [of as] by (cases as) auto
  from avp_loop_wf [OF ats ne ok, of s0]
  obtain evs s' where
    run: "avp_loop env tvb s0 =
        \<lparr>w_events = evs, w_end = LoopDone, w_state = s', w_iterations = length as\<rparr>"
    and o: "ws_offset s' = int (pos + avps_len as)"
    and l: "ws_length s' = 0"
    and i: "avp_items evs = avp_positions pos as"
    using small eap buf n
    by (auto simp: s0_def walker_init_def MAX_RADIUS_PACKET_SIZE_def)
  show ?thesis
    using run o l i pos_len
    by (simp add: dissect_attribute_value_pairs_def s0_def [symmetric] Let_def avp_items_call
          split: option.splits)
qed

theorem walker_lockstep_example:
  "w_end (dissect_attribute_value_pairs sample_env sample_tvb (replicate 4096 0) 20 27)
     = LoopDone \<and>
   w_iterations (dissect_attribute_value_pairs sample_env sample_tvb (replicate 4096 0) 20 27)
     = 4 \<and>
   avp_items (w_events (dissect_attribute_value_pairs sample_env sample_tvb (replicate 4096 0)
                          20 27))
     = [(20, 6), (26, 12), (38, 5), (43, 4)] \<and>
   ws_offset (w_state (dissect_attribute_value_pairs sample_env sample_tvb (replicate 4096 0)
                         20 27)) = 47 \<and>
   ws_length (w_state (dissect_attribute_value_pairs sample_env sample_tvb (replicate 4096 0)
                         20 27)) = 0"
proof -
  have ats: "avps_at sample_tvb 20 sample_avps" by code_simp
  have ne: "sample_avps \<noteq> []" by (simp add: sample_avps_def)
  have wf: "\<forall>a\<in>set sample_avps. wf_avp a" by (simp add: sample_avps_def wf_avp_def)
  have eap: "int (length (concat (eap_values sample_avps))) \<le> MAX_RADIUS_PACKET_SIZE"
    by (simp add: sample_avps_def eap_values_def MAX_RADIUS_PACKET_SIZE_def)
  have buf: "int (length (replicate 4096 (0::guint8))) = MAX_RADIUS_PACKET_SIZE"
    by (simp add: MAX_RADIUS_PACKET_SIZE_def)
  have small: "int (length sample_tvb) < 2147483648" by (simp add: sample_tvb_def)
  have len: "avps_len sample_avps = 27" by (simp add: sample_avps_def avps_len_def avp_len_def)
  have pos: "avp_positions 20 sample_avps = [(20, 6), (26, 12), (38, 5), (43, 4)]"
    by (simp add: sample_avps_def avp_len_def)
  show ?thesis
    using walker_lockstep [OF ats ne wf sample_decodable eap buf small] len pos
    by (simp add: sample_avps_def)
qed

subsection \<open>C3: the decryption contract\<close>

text \<open>
  C3. \<open>radius_decrypt_avp\<close> computes one digest, the MD5 of the shared secret
  followed by the authenticator; the output byte at index \<open>i\<close> is the ciphertext byte
  XOR the digest byte for \<open>i < 16\<close> and the ciphertext byte itself from index 16 on;
  each output byte is written literally when printable and as a backslash with three
  octal digits otherwise; the result has one leading and one trailing quote character
  (\<open>decrypt_spec\<close>).
\<close>

theorem radius_decrypt_avp_contract:
  assumes dg: "length (h (secret @ auth)) = 16"
    and off: "0 \<le> off" and len: "0 \<le> len" and fit: "off + len \<le> int (length tvb)"
  shows "radius_decrypt_avp h secret auth tvb off len =
           Inr (decrypt_spec (h (secret @ auth))
                  (take (nat len) (drop (nat off) tvb)))"
proof -
  define pd where "pd = take (nat len) (drop (nat off) tvb)"
  define digest where "digest = h (secret @ auth)"
  define m where "m = nat (min 16 len)"
  have lpd: "length pd = nat len" using off len fit by (simp add: pd_def)
  have m_le: "m \<le> length pd" using lpd len by (simp add: m_def)
  have split: "[0 ..< length pd] = [0 ..< m] @ [m ..< length pd]"
    using m_le upt_add_eq_append [of 0 m "length pd - m"] by simp
  have low: "map (\<lambda>i. render_byte (decrypt_output_byte digest pd i)) [0 ..< m] =
             map (\<lambda>k. render_byte ((pd ! k) XOR (digest ! k))) [0 ..< m]"
    by (rule map_cong) (auto simp: decrypt_output_byte_def m_def)
  have high: "map (\<lambda>i. render_byte (decrypt_output_byte digest pd i)) [m ..< length pd] =
             map (\<lambda>k. render_byte (pd ! k)) [m ..< length pd]"
  proof (rule map_cong)
    fix x assume "x \<in> set [m ..< length pd]"
    then have "m \<le> x" "x < length pd" by auto
    then have "16 \<le> x" using lpd len by (auto simp: m_def min_def split: if_splits)
    then show "render_byte (decrypt_output_byte digest pd x) = render_byte (pd ! x)"
      by (simp add: decrypt_output_byte_def)
  qed simp
  have xor_loop: "decrypt_xor_loop pd digest 0 len [0x22] =
      (min 16 len, [0x22] @ concat (map (\<lambda>k. render_byte ((pd ! k) XOR (digest ! k))) [0 ..< m]))"
    using len decrypt_xor_loop_eq [of 0 pd digest len "[0x22]"]
    by (cases "0 < len") (auto simp: m_def)
  have copy_loop: "decrypt_copy_loop pd (min 16 len) len dest =
      dest @ concat (map (\<lambda>k. render_byte (pd ! k)) [m ..< length pd])" for dest
    using len decrypt_copy_loop_eq [of "min 16 len" pd len dest] by (simp add: m_def lpd)
  have spec: "decrypt_spec digest pd =
      [0x22] @ concat (map (\<lambda>k. render_byte ((pd ! k) XOR (digest ! k))) [0 ..< m]) @
      concat (map (\<lambda>k. render_byte (pd ! k)) [m ..< length pd]) @ [0x22]"
    unfolding decrypt_spec_def
    by (subst split) (simp only: map_append concat_append low high append_assoc)
  have run: "radius_decrypt_avp h secret auth tvb off len =
      Inr (([0x22] @ concat (map (\<lambda>k. render_byte ((pd ! k) XOR (digest ! k))) [0 ..< m])) @
      concat (map (\<lambda>k. render_byte (pd ! k)) [m ..< length pd]) @ [0x22])"
    unfolding radius_decrypt_avp_def Let_def
    using tvb_get_ptr_in_range [OF off len fit] xor_loop copy_loop
    by (simp add: pd_def [symmetric] digest_def [symmetric])
  show ?thesis
    using run spec by (simp add: pd_def digest_def)
qed

theorem radius_decrypt_avp_contract_witness:
  "radius_decrypt_avp (\<lambda>x. [1,2,3,4,5,6,7,8,9,10,11,12,13,14,15,16]) [0x73] [0,0,0,0,0,0,0,0,0,0,0,0,0,0,0,0]
     [0,0,0x60,0x63,0x60,1,0x44,0x43,0x42,0x41,0x40,0x4F,0x4E,0x4D,0x4C,0x4B,0x4A,0x59,0x41,0x07,0xff] 2 18
   = Inr [0x22, 0x61, 0x61, 0x63, 0x5C, 0x30, 0x30, 0x35, 0x41, 0x45, 0x45, 0x49, 0x49, 0x45, 0x45, 0x41, 0x41, 0x45, 0x45, 0x49, 0x41, 0x5C, 0x30, 0x30, 0x37, 0x22]"
proof -
  have "radius_decrypt_avp (\<lambda>x. [1,2,3,4,5,6,7,8,9,10,11,12,13,14,15,16]) [0x73] [0,0,0,0,0,0,0,0,0,0,0,0,0,0,0,0]
     [0,0,0x60,0x63,0x60,1,0x44,0x43,0x42,0x41,0x40,0x4F,0x4E,0x4D,0x4C,0x4B,0x4A,0x59,0x41,0x07,0xff] 2 18
     = Inr (decrypt_spec [1,2,3,4,5,6,7,8,9,10,11,12,13,14,15,16]
         (take (nat 18) (drop (nat 2) [0,0,0x60,0x63,0x60,1,0x44,0x43,0x42,0x41,0x40,0x4F,0x4E,0x4D,0x4C,0x4B,0x4A,0x59,0x41,0x07,0xff])))"
    by (rule radius_decrypt_avp_contract) simp_all
  also have "decrypt_spec [1,2,3,4,5,6,7,8,9,10,11,12,13,14,15,16]
         (take (nat 18) (drop (nat 2) [0,0,0x60,0x63,0x60,1,0x44,0x43,0x42,0x41,0x40,0x4F,0x4E,0x4D,0x4C,0x4B,0x4A,0x59,0x41,0x07,0xff]))
     = [0x22, 0x61, 0x61, 0x63, 0x5C, 0x30, 0x30, 0x35, 0x41, 0x45, 0x45, 0x49, 0x49, 0x45, 0x45, 0x41, 0x41, 0x45, 0x45, 0x49, 0x41, 0x5C, 0x30, 0x30, 0x37, 0x22]"
    by code_simp
  finally show ?thesis .
qed

subsection \<open>C4: an AVP shorter than its header\<close>

text \<open>
  C4. When the walker, after any number of AVPs, reaches an AVP whose declared length is
  less than 3, it stops at once: the result holds the events of the AVPs before it, then
  the report ``AVP too short'', and nothing for the malformed AVP or the bytes after it.
\<close>

theorem avp_too_short_stops:
  assumes nz: "len \<noteq> 0"
    and steps: "avp_steps env tvb n (walker_init eap_buffer off len) = Some (evs, s)"
    and ty: "tvb_get_guint8 tvb (ws_offset s) = Inr avp_type"
    and al: "tvb_get_guint8 tvb (gint (ws_offset s + 1)) = Inr avp_length"
    and short: "avp_length < 3"
  shows "dissect_attribute_value_pairs env tvb eap_buffer off len =
           \<lparr>w_events = evs @ [TextItem (ws_offset s) 0 ''AVP too short''],
             w_end = AvpTooShort, w_state = s, w_iterations = Suc n\<rparr>"
proof -
  have st: "avp_step env tvb s = Stop [TextItem (ws_offset s) 0 ''AVP too short''] AvpTooShort s"
    using ty al short by (simp add: avp_step_def)
  have "avp_loop env tvb s =
      \<lparr>w_events = [TextItem (ws_offset s) 0 ''AVP too short''], w_end = AvpTooShort,
        w_state = s, w_iterations = 1\<rparr>"
    using st by (simp add: avp_loop.simps [of env tvb s])
  then have "avp_loop env tvb (walker_init eap_buffer off len) =
      \<lparr>w_events = evs @ [TextItem (ws_offset s) 0 ''AVP too short''], w_end = AvpTooShort,
        w_state = s, w_iterations = Suc n\<rparr>"
    using avp_loop_after_steps [OF steps] by simp
  then show ?thesis using nz by (simp add: dissect_attribute_value_pairs_def)
qed

theorem avp_too_short_stops_witness:
  "dissect_attribute_value_pairs
     \<lparr>dict = \<lparr>attrs_by_id = Map.empty, vendors_by_id = Map.empty, vendors_by_name = Map.empty\<rparr>,
      shared_secret = [], authenticator = replicate 16 0, md5 = (\<lambda>x. replicate 16 0)\<rparr>
     (replicate 20 0 @ [1, 5, 0x61, 0x62, 0x63, 2, 1, 0x64, 3, 3, 0x65]) (replicate 4096 0) 20 11 =
   \<lparr>w_events =
      [AvpItem 20 5 [AttrText ''Unknown-Attribute'' 1, LengthField 3,
                     ValueText [BytesText [0x61, 0x62, 0x63]]],
       TextItem 25 0 ''AVP too short''],
     w_end = AvpTooShort,
     w_state = \<lparr>ws_offset = 25, ws_length = 6, ws_last_eap = False,
                 ws_eap_buffer = replicate 4096 0, ws_eap_seg_num = 0, ws_eap_tot_len = 0,
                 ws_eap_tvb = None\<rparr>,
     w_iterations = Suc 1\<rparr>"
proof -
  let ?env = "\<lparr>dict = \<lparr>attrs_by_id = Map.empty, vendors_by_id = Map.empty, vendors_by_name = Map.empty\<rparr>,
      shared_secret = [], authenticator = replicate 16 0, md5 = (\<lambda>x. replicate 16 0)\<rparr>"
  let ?tvb = "replicate 20 0 @ [1, 5, 0x61, 0x62, 0x63, 2, 1, 0x64, 3, 3, 0x65] :: tvbuff"
  let ?s = "\<lparr>ws_offset = 25, ws_length = 6, ws_last_eap = False,
                 ws_eap_buffer = replicate 4096 0, ws_eap_seg_num = 0, ws_eap_tot_len = 0,
                 ws_eap_tvb = None\<rparr>"
  have nz: "(11::int) \<noteq> 0" by simp
  have steps: "avp_steps ?env ?tvb 1 (walker_init (replicate 4096 0) 20 11) =
      Some ([AvpItem 20 5 [AttrText ''Unknown-Attribute'' 1, LengthField 3,
                     ValueText [BytesText [0x61, 0x62, 0x63]]]], ?s)"
    by code_simp
  have ty: "tvb_get_guint8 ?tvb (ws_offset ?s) = Inr 2" by code_simp
  have al: "tvb_get_guint8 ?tvb (gint (ws_offset ?s + 1)) = Inr 1" by code_simp
  show ?thesis
    using avp_too_short_stops [OF nz steps ty al] by simp
qed

subsection \<open>C5: EAP reassembly\<close>

text \<open>
  C5 says that the last fragment is detected when the next AVP's type is not EAP-Message
  or no bytes remain, and that the reassembled blob is then handed to the EAP decoder
  once, after the loop. The walker looks for the next type in the buffer, not in the AVP
  region (\<open>tvb_bytes_exist\<close> and \<open>tvb_get_guint8\<close> on \<open>tvb\<close>, never \<open>length\<close>).
  \<open>eap_padded_tvb\<close> is a packet of 23 bytes by its length field whose region is one
  EAP-Message AVP, followed in the buffer by three bytes of padding that begin with 79:
  no bytes of the region remain after the fragment, yet the walker takes the padding for
  another EAP-Message AVP, marks the fragment as a plain segment and never calls the EAP
  decoder. On the same packet without the padding the fragment is the last segment and
  the blob is handed over. The theorem is the run of the code on both buffers.
\<close>

theorem eap_padding_hides_last_fragment:
  "length eap_padded_tvb = 26 \<and>
   be_uint (take 2 (drop 2 eap_padded_tvb)) = 23 \<and>
   avps_at eap_padded_tvb 20 [(79, [0xAA])] \<and>
   avps_len [(79, [0xAA])] = 3 \<and>
   w_events (dissect_attribute_value_pairs sample_env eap_padded_tvb (replicate 4096 0) 20 3) =
     [AvpItem 20 3 [EapSegmentText 1]] \<and>
   w_end (dissect_attribute_value_pairs sample_env eap_padded_tvb (replicate 4096 0) 20 3) =
     LoopDone \<and>
   ws_length (w_state (dissect_attribute_value_pairs sample_env eap_padded_tvb (replicate 4096 0)
                         20 3)) = 0 \<and>
   w_events (dissect_attribute_value_pairs sample_env (take 23 eap_padded_tvb) (replicate 4096 0)
               20 3) =
     [AvpItem 20 3 [EapLastSegmentText 1], DataSource [0xAA], CallEapDissector [0xAA]]"
  by code_simp

text \<open>
  What the walker does with the fragments otherwise. On a buffer that holds a non-empty
  sequence of well-formed, decodable AVPs, the value bytes of the EAP-Message AVPs are
  concatenated in the order met; the events of the loop hold no call of the EAP decoder,
  and the function ends with exactly one call, on that concatenation, when the walker
  detected a last fragment (\<open>eap_last\<close>, the test of the code: after some fragment
  fewer than three bytes follow in the buffer or the next byte is not 79), and with no
  call otherwise, in particular when there is no EAP-Message AVP. The walker's test
  succeeds whenever there is an EAP-Message AVP, unless the sequence ends with one and the
  buffer goes on with three or more bytes that begin with 79.
\<close>

theorem eap_reassembly:
  assumes ats: "avps_at tvb pos as" and ne: "as \<noteq> []"
    and wf: "\<forall>a\<in>set as. wf_avp a"
    and dec: "\<forall>a\<in>set as. decodable (dict env) a"
    and eap: "int (length (concat (eap_values as))) \<le> MAX_RADIUS_PACKET_SIZE"
    and buf: "int (length eap_buffer) = MAX_RADIUS_PACKET_SIZE"
    and small: "int (length tvb) < 2147483648"
  shows "(\<exists>evs. (\<forall>e\<in>set evs. \<not> is_call e) \<and>
           w_events (dissect_attribute_value_pairs env tvb eap_buffer (int pos) (int (avps_len as)))
             = evs @ (if eap_values as \<noteq> [] \<and> eap_last tvb pos False as
                      then [CallEapDissector (concat (eap_values as))] else [])) \<and>
         length (concat (eap_values as)) = sum_list (map length (eap_values as)) \<and>
         (fst (last as) \<noteq> 79 \<or> \<not> next_is_eap tvb (pos + avps_len as) \<longrightarrow>
            eap_last tvb pos False as = (eap_values as \<noteq> []))"
proof -
  define s0 where "s0 = walker_init eap_buffer (int pos) (int (avps_len as))"
  have ok: "\<forall>a\<in>set as. wf_avp a \<and> decodable (dict env) a" using wf dec by simp
  have fits: "pos + avps_len as \<le> length tvb" using ats ne by (rule avps_at_fits)
  have n: "int (length as) < 4294967296"
    using length_le_avps_len [of as] fits small by simp
  have pos_len: "0 < avps_len as" using ne length_le_avps_len [of as] by (cases as) auto
  from avp_loop_wf [OF ats ne ok, of s0]
  obtain evs s' where
    run: "avp_loop env tvb s0 =
        \<lparr>w_events = evs, w_end = LoopDone, w_state = s', w_iterations = length as\<rparr>"
    and c: "\<forall>e\<in>set evs. \<not> is_call e"
    and k: "take (nat (ws_eap_tot_len s')) (ws_eap_buffer s') =
        take (nat (ws_eap_tot_len s0)) (ws_eap_buffer s0) @ concat (eap_values as)"
    and d: "ws_last_eap s' = eap_last tvb pos (ws_last_eap s0) as"
    and v: "ws_eap_tvb s' = (if eap_values as \<noteq> [] \<and> ws_last_eap s'
                       then Some (take (nat (ws_eap_tot_len s')) (ws_eap_buffer s'))
                       else ws_eap_tvb s0)"
    using small eap buf n
    by (auto simp: s0_def walker_init_def MAX_RADIUS_PACKET_SIZE_def)
  have tvb': "ws_eap_tvb s' = (if eap_values as \<noteq> [] \<and> eap_last tvb pos False as
                       then Some (concat (eap_values as)) else None)"
    using v k d by (simp add: s0_def walker_init_def)
  have ev: "w_events (dissect_attribute_value_pairs env tvb eap_buffer (int pos) (int (avps_len as)))
             = evs @ (if eap_values as \<noteq> [] \<and> eap_last tvb pos False as
                      then [CallEapDissector (concat (eap_values as))] else [])"
    using run tvb' pos_len
    by (simp add: dissect_attribute_value_pairs_def s0_def [symmetric] Let_def)
  have det: "fst (last as) \<noteq> 79 \<or> \<not> next_is_eap tvb (pos + avps_len as) \<longrightarrow>
            eap_last tvb pos False as = (eap_values as \<noteq> [])"
    using eap_last_detected [OF ats wf ne, of False] by simp
  show ?thesis using c ev det by (auto simp: length_concat)
qed

theorem eap_reassembly_example:
  "(\<exists>evs. list_all (\<lambda>e. \<not> is_call e) evs \<and>
      w_events (dissect_attribute_value_pairs sample_env eap_sample_tvb (replicate 4096 0) 20 35)
        = evs @ [CallEapDissector [1, 2, 3, 4, 5, 6, 7, 8, 9, 10, 11, 12, 13, 14, 15, 16, 17, 18,
                                   19, 20, 21, 22, 23, 24, 25]]) \<and>
   length (concat (eap_values eap_sample_avps)) = 10 + 10 + 5"
proof -
  have ats: "avps_at eap_sample_tvb 20 eap_sample_avps" by code_simp
  have ne: "eap_sample_avps \<noteq> []" by (simp add: eap_sample_avps_def)
  have wf: "\<forall>a\<in>set eap_sample_avps. wf_avp a" by (simp add: eap_sample_avps_def wf_avp_def)
  have dec: "\<forall>a\<in>set eap_sample_avps. decodable (dict sample_env) a"
    by (simp add: eap_sample_avps_def sample_env_def sample_dict_def decodable_def avp_entry_def
        decoder_returns_def avp_header_size_def avp_len_def)
  have eap: "int (length (concat (eap_values eap_sample_avps))) \<le> MAX_RADIUS_PACKET_SIZE"
    by (simp add: eap_sample_avps_def eap_values_def MAX_RADIUS_PACKET_SIZE_def)
  have buf: "int (length (replicate 4096 (0::guint8))) = MAX_RADIUS_PACKET_SIZE"
    by (simp add: MAX_RADIUS_PACKET_SIZE_def)
  have small: "int (length eap_sample_tvb) < 2147483648" by (simp add: eap_sample_tvb_def)
  have len: "avps_len eap_sample_avps = 35"
    by (simp add: eap_sample_avps_def avps_len_def avp_len_def)
  have vals: "concat (eap_values eap_sample_avps) =
      [1, 2, 3, 4, 5, 6, 7, 8, 9, 10, 11, 12, 13, 14, 15, 16, 17, 18, 19, 20, 21, 22, 23, 24, 25]"
    by (simp add: eap_sample_avps_def eap_values_def)
  have lst: "fst (last eap_sample_avps) \<noteq> 79" by (simp add: eap_sample_avps_def)
  have some: "eap_values eap_sample_avps \<noteq> []" by (simp add: eap_sample_avps_def eap_values_def)
  note r = eap_reassembly [OF ats ne wf dec eap buf small]
  have det: "eap_last eap_sample_tvb 20 False eap_sample_avps"
    using r lst some by blast
  obtain evs where c: "\<forall>e\<in>set evs. \<not> is_call e"
    and ev: "w_events (dissect_attribute_value_pairs sample_env eap_sample_tvb (replicate 4096 0)
                         (int 20) (int (avps_len eap_sample_avps)))
        = evs @ (if eap_values eap_sample_avps \<noteq> [] \<and> eap_last eap_sample_tvb 20 False eap_sample_avps
                 then [CallEapDissector (concat (eap_values eap_sample_avps))] else [])"
    using r by blast
  have "list_all (\<lambda>e. \<not> is_call e) evs" using c by (simp add: list_all_iff)
  moreover have "w_events (dissect_attribute_value_pairs sample_env eap_sample_tvb
        (replicate 4096 0) 20 35) = evs @ [CallEapDissector [1, 2, 3, 4, 5, 6, 7, 8, 9, 10, 11,
          12, 13, 14, 15, 16, 17, 18, 19, 20, 21, 22, 23, 24, 25]]"
    using ev det some vals len by simp
  ultimately show ?thesis using vals by auto
qed

subsection \<open>C6: the EAP buffer is never overrun\<close>

text \<open>
  C6. When the walker, after any number of AVPs, reaches an EAP-Message AVP whose value
  would bring the accumulated size above \<open>MAX_RADIUS_PACKET_SIZE\<close> (4096), it adds the
  report ``Eap-Message longer than maximum radius packet size'' and returns: nothing
  after that AVP is decoded. On every input the function never writes outside
  \<open>eap_buffer\<close>, which keeps its 4096 bytes, and the accumulated size never exceeds
  4096.
\<close>

theorem eap_fragment_overflow:
  assumes blen: "int (length eap_buffer) = MAX_RADIUS_PACKET_SIZE"
    and nz: "len \<noteq> 0"
    and steps: "avp_steps env tvb n (walker_init eap_buffer off len) = Some (evs, s)"
    and at: "avp_at tvb pos a" and ty: "fst a = 79" and wf: "wf_avp a"
    and off: "ws_offset s = int pos"
    and small: "int (length tvb) < 2147483648"
    and over: "MAX_RADIUS_PACKET_SIZE < ws_eap_tot_len s + int (length (snd a))"
  shows "dissect_attribute_value_pairs env tvb eap_buffer off len =
           \<lparr>w_events = evs @
              [AvpItem (int pos) (int (avp_len a)) [],
               TextItem (int pos) 0 ''[Eap-Message longer than maximum radius packet size]''],
             w_end = EapTooLong,
             w_state = s\<lparr>ws_length := gint (ws_length s - int (avp_len a))\<rparr>,
             w_iterations = Suc n\<rparr> \<and>
         (\<forall>env' tvb' off' len'.
            w_end (dissect_attribute_value_pairs env' tvb' eap_buffer off' len') \<noteq> BufferOverrun \<and>
            int (length (ws_eap_buffer (w_state
                   (dissect_attribute_value_pairs env' tvb' eap_buffer off' len'))))
              = MAX_RADIUS_PACKET_SIZE \<and>
            ws_eap_tot_len (w_state (dissect_attribute_value_pairs env' tvb' eap_buffer off' len'))
              \<le> MAX_RADIUS_PACKET_SIZE)"
proof
  have inv0: "eap_inv (walker_init eap_buffer off len)"
    using blen by (simp add: eap_inv_def walker_init_def MAX_RADIUS_PACKET_SIZE_def)
  have inv: "eap_inv s" using avp_steps_inv [OF steps inv0] .
  have v: "1 \<le> length (snd a)" "length (snd a) \<le> 253" using wf by (simp_all add: wf_avp_def)
  have tot: "0 \<le> ws_eap_tot_len s" "ws_eap_tot_len s \<le> 4096"
    using inv by (simp_all add: eap_inv_def MAX_RADIUS_PACKET_SIZE_def)
  have over': "4096 < ws_eap_tot_len s + int (length (snd a))"
    using over by (simp add: MAX_RADIUS_PACKET_SIZE_def)
  note st = avp_step_eap_too_long [OF at ty v off small tot over', of env]
  have "avp_loop env tvb s =
      \<lparr>w_events = [AvpItem (int pos) (int (avp_len a)) [],
               TextItem (int pos) 0 ''[Eap-Message longer than maximum radius packet size]''],
        w_end = EapTooLong,
        w_state = s\<lparr>ws_length := gint (ws_length s - int (avp_len a))\<rparr>, w_iterations = 1\<rparr>"
    using st by (simp add: avp_loop.simps [of env tvb s])
  then have "avp_loop env tvb (walker_init eap_buffer off len) =
      \<lparr>w_events = evs @ [AvpItem (int pos) (int (avp_len a)) [],
               TextItem (int pos) 0 ''[Eap-Message longer than maximum radius packet size]''],
        w_end = EapTooLong,
        w_state = s\<lparr>ws_length := gint (ws_length s - int (avp_len a))\<rparr>,
        w_iterations = Suc n\<rparr>"
    using avp_loop_after_steps [OF steps] by simp
  then show "dissect_attribute_value_pairs env tvb eap_buffer off len =
           \<lparr>w_events = evs @
              [AvpItem (int pos) (int (avp_len a)) [],
               TextItem (int pos) 0 ''[Eap-Message longer than maximum radius packet size]''],
             w_end = EapTooLong,
             w_state = s\<lparr>ws_length := gint (ws_length s - int (avp_len a))\<rparr>,
             w_iterations = Suc n\<rparr>"
    using nz by (simp add: dissect_attribute_value_pairs_def)
next
  show "\<forall>env' tvb' off' len'.
            w_end (dissect_attribute_value_pairs env' tvb' eap_buffer off' len') \<noteq> BufferOverrun \<and>
            int (length (ws_eap_buffer (w_state
                   (dissect_attribute_value_pairs env' tvb' eap_buffer off' len'))))
              = MAX_RADIUS_PACKET_SIZE \<and>
            ws_eap_tot_len (w_state (dissect_attribute_value_pairs env' tvb' eap_buffer off' len'))
              \<le> MAX_RADIUS_PACKET_SIZE"
  proof (intro allI)
    fix env' tvb' off' len'
    have inv0: "eap_inv (walker_init eap_buffer off' len')"
      using blen by (simp add: eap_inv_def walker_init_def MAX_RADIUS_PACKET_SIZE_def)
    note l = avp_loop_inv [OF inv0, of env' tvb']
    show "w_end (dissect_attribute_value_pairs env' tvb' eap_buffer off' len') \<noteq> BufferOverrun \<and>
            int (length (ws_eap_buffer (w_state
                   (dissect_attribute_value_pairs env' tvb' eap_buffer off' len'))))
              = MAX_RADIUS_PACKET_SIZE \<and>
            ws_eap_tot_len (w_state (dissect_attribute_value_pairs env' tvb' eap_buffer off' len'))
              \<le> MAX_RADIUS_PACKET_SIZE"
      using l inv0
      by (auto simp: dissect_attribute_value_pairs_def Let_def eap_inv_def split: option.splits)
  qed
qed

theorem eap_fragment_overflow_witness:
  "w_end (dissect_attribute_value_pairs empty_env eap_flood_tvb (replicate 4096 0) 20 4338)
     = EapTooLong \<and>
   w_iterations (dissect_attribute_value_pairs empty_env eap_flood_tvb (replicate 4096 0) 20 4338)
     = Suc 16 \<and>
   last (w_events (dissect_attribute_value_pairs empty_env eap_flood_tvb (replicate 4096 0)
                     20 4338))
     = TextItem 4100 0 ''[Eap-Message longer than maximum radius packet size]'' \<and>
   int (length (ws_eap_buffer (w_state
          (dissect_attribute_value_pairs empty_env eap_flood_tvb (replicate 4096 0) 20 4338))))
     = MAX_RADIUS_PACKET_SIZE"
proof -
  obtain evs s where
    steps: "avp_steps empty_env eap_flood_tvb 16 (walker_init (replicate 4096 0) 20 4338)
              = Some (evs, s)"
    and o: "ws_offset s = 4100" and l: "ws_length s = 258" and t: "ws_eap_tot_len s = 4048"
    using eap_flood_run by blast
  have blen: "int (length (replicate 4096 (0::guint8))) = MAX_RADIUS_PACKET_SIZE"
    by (simp add: MAX_RADIUS_PACKET_SIZE_def)
  have nz: "(4338::int) \<noteq> 0" by simp
  have ty: "fst ((79, replicate 253 0) :: raw_avp) = 79" by simp
  have wf: "wf_avp (79, replicate 253 0)" by (simp add: wf_avp_def)
  have o': "ws_offset s = int 4100" using o by simp
  have small: "int (length eap_flood_tvb) < 2147483648" by (simp add: eap_flood_length)
  have over: "MAX_RADIUS_PACKET_SIZE < ws_eap_tot_len s + int (length (snd ((79, replicate 253 0) :: raw_avp)))"
    using t by (simp add: MAX_RADIUS_PACKET_SIZE_def)
  note r = eap_fragment_overflow [OF blen nz steps eap_flood_17th ty wf o' small over]
  show ?thesis
    using conjunct1 [OF r] conjunct2 [OF r, rule_format, of empty_env eap_flood_tvb 20 4338]
    by simp
qed

subsection \<open>C7: attributes without a dictionary entry\<close>

text \<open>
  C7, amended. For every well-formed AVP inside the buffer, other than an EAP-Message
  AVP (type 79), whose type (or, for a vendor-specific AVP, whose vendor or sub-type) has
  no dictionary entry, the walker uses \<open>no_dictionary_entry\<close>: the item is named
  ``Unknown-Attribute'', its value is the raw value bytes rendered as octets
  (\<open>BytesText\<close>), and the loop goes on with the next AVP (or ends when nothing
  remains).
\<close>

theorem unknown_attribute_decoded:
  assumes at: "avp_at tvb pos a" and wf: "wf_avp a" and ne: "fst a \<noteq> 79"
    and unk: "unknown_avp (dict env) a"
    and off: "ws_offset s = int pos"
    and small: "int (length tvb) < 2147483648"
    and len: "- 2147483648 \<le> ws_length s - int (avp_len a)" "ws_length s - int (avp_len a) < 2147483648"
  shows "let item = AvpItem (int pos) (int (avp_len a))
                      (avp_header_texts (dict env) a @
                       [LengthField (int (length (avp_payload a))),
                        ValueText [BytesText (avp_payload a)]]);
             s' = s\<lparr>ws_length := ws_length s - int (avp_len a),
                     ws_offset := int (pos + avp_len a)\<rparr>
         in last (avp_header_texts (dict env) a) =
              AttrText ''Unknown-Attribute''
                (if fst a = 26 then uint (snd a ! 4) else uint (fst a)) \<and>
            avp_step env tvb s = Continue [item] s' \<and>
            avp_loop env tvb s =
              (if 0 < ws_length s' then
                 (avp_loop env tvb s')\<lparr>w_events := item # w_events (avp_loop env tvb s'),
                     w_iterations := Suc (w_iterations (avp_loop env tvb s'))\<rparr>
               else \<lparr>w_events = [item], w_end = LoopDone, w_state = s', w_iterations = 1\<rparr>)"
proof -
  have v: "1 \<le> length (snd a)" "length (snd a) \<le> 253" using wf by (simp_all add: wf_avp_def)
  have fits: "pos + avp_len a \<le> length tvb" using at by (simp add: avp_at_def)
  have hs: "avp_header_size a \<le> avp_len a" "2 \<le> avp_header_size a"
    using wf by (auto simp: avp_header_size_def avp_len_def wf_avp_def)
  have en: "avp_entry (dict env) a = no_dictionary_entry" using unk by (rule unknown_avp_entry)
  have gl: "gint (ws_length s - int (avp_len a)) = ws_length s - int (avp_len a)"
    using len by (intro gint_id) simp_all
  have pl: "length (avp_payload a) = avp_len a - avp_header_size a"
    using hs by (simp add: avp_payload_def avp_len_def)
  have sl: "take (nat (int (avp_len a) - int (avp_header_size a)))
              (drop (nat (int pos + int (avp_header_size a))) tvb) = avp_payload a"
  proof -
    have "nat (int pos + int (avp_header_size a)) = pos + 2 + (avp_header_size a - 2)"
      using hs by simp
    moreover have "nat (int (avp_len a) - int (avp_header_size a)) = avp_len a - avp_header_size a"
      using hs by simp
    moreover have "take (avp_len a - avp_header_size a) (drop (pos + 2 + (avp_header_size a - 2)) tvb)
        = take (avp_len a - avp_header_size a) (drop (avp_header_size a - 2) (snd a))"
      using hs by (intro avp_at_value_slice [OF at]) (simp add: avp_len_def)
    ultimately show ?thesis using pl by (simp add: avp_payload_def)
  qed
  define item where "item = AvpItem (int pos) (int (avp_len a))
                      (avp_header_texts (dict env) a @
                       [LengthField (int (length (avp_payload a))),
                        ValueText [BytesText (avp_payload a)]])"
  define s' where "s' = s\<lparr>ws_length := ws_length s - int (avp_len a),
                     ws_offset := int (pos + avp_len a)\<rparr>"
  have step: "avp_step env tvb s = Continue [item] s'"
    using avp_step_attribute [OF at wf ne off small, of env]
      avp_attribute_unknown [of "int pos + int (avp_header_size a)"
        "int (avp_len a) - int (avp_header_size a)" tvb env "int pos" "int (avp_len a)"
        "avp_header_texts (dict env) a" "s\<lparr>ws_length := gint (ws_length s - int (avp_len a))\<rparr>"]
      hs fits small en gl sl pl
    by (simp add: item_def s'_def)
  have nm: "last (avp_header_texts (dict env) a) =
              AttrText ''Unknown-Attribute''
                (if fst a = 26 then uint (snd a ! 4) else uint (fst a))"
    using en by (simp add: avp_header_texts_def no_dictionary_entry_def)
  have loop: "avp_loop env tvb s =
              (if 0 < ws_length s' then
                 (avp_loop env tvb s')\<lparr>w_events := item # w_events (avp_loop env tvb s'),
                     w_iterations := Suc (w_iterations (avp_loop env tvb s'))\<rparr>
               else \<lparr>w_events = [item], w_end = LoopDone, w_state = s', w_iterations = 1\<rparr>)"
    using step by (simp add: avp_loop.simps [of env tvb s] Let_def)
  show ?thesis
    using nm step loop by (simp add: Let_def item_def s'_def)
qed

theorem unknown_attribute_decoded_witness:
  "avp_step
     \<lparr>dict = \<lparr>attrs_by_id = Map.empty, vendors_by_id = Map.empty, vendors_by_name = Map.empty\<rparr>,
      shared_secret = [], authenticator = replicate 16 0, md5 = (\<lambda>x. replicate 16 0)\<rparr>
     (replicate 20 0 @ [1, 5, 0x61, 0x62, 0x63, 26, 9, 0, 0, 0, 9, 1, 3, 0x7A])
     \<lparr>ws_offset = 20, ws_length = 14, ws_last_eap = False, ws_eap_buffer = replicate 4096 0,
      ws_eap_seg_num = 0, ws_eap_tot_len = 0, ws_eap_tvb = None\<rparr> =
   Continue [AvpItem 20 5 [AttrText ''Unknown-Attribute'' 1, LengthField 3,
                           ValueText [BytesText [0x61, 0x62, 0x63]]]]
     \<lparr>ws_offset = 25, ws_length = 9, ws_last_eap = False, ws_eap_buffer = replicate 4096 0,
      ws_eap_seg_num = 0, ws_eap_tot_len = 0, ws_eap_tvb = None\<rparr> \<and>
   avp_step
     \<lparr>dict = \<lparr>attrs_by_id = Map.empty, vendors_by_id = Map.empty, vendors_by_name = Map.empty\<rparr>,
      shared_secret = [], authenticator = replicate 16 0, md5 = (\<lambda>x. replicate 16 0)\<rparr>
     (replicate 20 0 @ [1, 5, 0x61, 0x62, 0x63, 26, 9, 0, 0, 0, 9, 1, 3, 0x7A])
     \<lparr>ws_offset = 25, ws_length = 9, ws_last_eap = False, ws_eap_buffer = replicate 4096 0,
      ws_eap_seg_num = 0, ws_eap_tot_len = 0, ws_eap_tvb = None\<rparr> =
   Continue [AvpItem 25 9 [VendorUnknownText 9, AttrText ''Unknown-Attribute'' 1, LengthField 1,
                           ValueText [BytesText [0x7A]]]]
     \<lparr>ws_offset = 34, ws_length = 0, ws_last_eap = False, ws_eap_buffer = replicate 4096 0,
      ws_eap_seg_num = 0, ws_eap_tot_len = 0, ws_eap_tvb = None\<rparr>"
proof -
  let ?env = "\<lparr>dict = \<lparr>attrs_by_id = Map.empty, vendors_by_id = Map.empty, vendors_by_name = Map.empty\<rparr>,
      shared_secret = [], authenticator = replicate 16 0, md5 = (\<lambda>x. replicate 16 0)\<rparr>"
  let ?tvb = "replicate 20 0 @ [1, 5, 0x61, 0x62, 0x63, 26, 9, 0, 0, 0, 9, 1, 3, 0x7A] :: tvbuff"
  let ?s0 = "\<lparr>ws_offset = 20, ws_length = 14, ws_last_eap = False, ws_eap_buffer = replicate 4096 0,
      ws_eap_seg_num = 0, ws_eap_tot_len = 0, ws_eap_tvb = None\<rparr>"
  let ?s1 = "\<lparr>ws_offset = 25, ws_length = 9, ws_last_eap = False, ws_eap_buffer = replicate 4096 0,
      ws_eap_seg_num = 0, ws_eap_tot_len = 0, ws_eap_tvb = None\<rparr>"
  let ?a = "(1, [0x61, 0x62, 0x63]) :: raw_avp"
  let ?b = "(26, [0, 0, 0, 9, 1, 3, 0x7A]) :: raw_avp"
  have small: "int (length ?tvb) < 2147483648" by simp
  have a1: "avp_at ?tvb 20 ?a" by code_simp
  have a2: "wf_avp ?a" by (simp add: wf_avp_def)
  have a3: "fst ?a \<noteq> 79" by simp
  have a4: "unknown_avp (dict ?env) ?a" by (simp add: unknown_avp_def)
  have a5: "ws_offset ?s0 = int 20" by simp
  have a6: "- 2147483648 \<le> ws_length ?s0 - int (avp_len ?a)"
    "ws_length ?s0 - int (avp_len ?a) < 2147483648" by (simp_all add: avp_len_def)
  have b1: "avp_at ?tvb 25 ?b" by code_simp
  have b2: "wf_avp ?b" by (simp add: wf_avp_def)
  have b3: "fst ?b \<noteq> 79" by simp
  have b4: "unknown_avp (dict ?env) ?b" by (simp add: unknown_avp_def)
  have b5: "ws_offset ?s1 = int 25" by simp
  have b6: "- 2147483648 \<le> ws_length ?s1 - int (avp_len ?b)"
    "ws_length ?s1 - int (avp_len ?b) < 2147483648" by (simp_all add: avp_len_def)
  have first: "avp_step ?env ?tvb ?s0 =
      Continue [AvpItem 20 5 [AttrText ''Unknown-Attribute'' 1, LengthField 3,
                           ValueText [BytesText [0x61, 0x62, 0x63]]]] ?s1"
    using unknown_attribute_decoded [OF a1 a2 a3 a4 a5 small a6]
    by (simp add: Let_def avp_len_def avp_header_texts_def avp_entry_def avp_payload_def
          avp_header_size_def no_dictionary_entry_def)
  have second: "avp_step ?env ?tvb ?s1 =
      Continue [AvpItem 25 9 [VendorUnknownText 9, AttrText ''Unknown-Attribute'' 1, LengthField 1,
                           ValueText [BytesText [0x7A]]]]
       \<lparr>ws_offset = 34, ws_length = 0, ws_last_eap = False, ws_eap_buffer = replicate 4096 0,
      ws_eap_seg_num = 0, ws_eap_tot_len = 0, ws_eap_tvb = None\<rparr>"
    using unknown_attribute_decoded [OF b1 b2 b3 b4 b5 small b6]
    by (simp add: Let_def avp_len_def avp_header_texts_def avp_entry_def avp_payload_def
          avp_header_size_def no_dictionary_entry_def)
  show ?thesis using first second by simp
qed

text \<open>
  C7 as stated covers type 79 too. The walker tests for the EAP-Message code before it
  looks the type up: with no dictionary entry for 79 the AVP is still taken as an EAP
  fragment, the item is an EAP segment and the value is not rendered as octets.
\<close>

theorem unknown_attribute_decoded_counterexample:
  "unknown_avp (dict empty_env) (79, [1, 2, 3]) \<and>
   wf_avp (79, [1, 2, 3]) \<and>
   avp_at (replicate 20 0 @ [79, 5, 1, 2, 3]) 20 (79, [1, 2, 3]) \<and>
   w_events (dissect_attribute_value_pairs empty_env (replicate 20 0 @ [79, 5, 1, 2, 3])
               (replicate 4096 0) 20 5) =
     [AvpItem 20 5 [EapLastSegmentText 1], DataSource [1, 2, 3], CallEapDissector [1, 2, 3]]"
  by code_simp

subsection \<open>C8: the tag of a tagged attribute\<close>

text \<open>
  C8. Let the walker stand at a well-formed AVP, not an EAP-Message (for which the
  walker looks up no descriptor), whose descriptor in the dictionary (\<open>avp_entry\<close>,
  the vendor's attribute table for a vendor-specific AVP) is marked tagged and whose effective value (the bytes
  after the 2-byte header, or after the 8-byte header of a vendor-specific AVP) is not
  empty, and let \<open>b\<close> be the first byte of that value. The iteration reads \<open>b\<close> at the
  start of the value. If \<open>b \<le> 0x1F\<close>, the item shows the tag \<open>b\<close> and the value is
  decoded from the region one byte further and one byte shorter, which holds the value
  without its first byte; if \<open>b \<ge> 0x20\<close>, the item shows no tag and the value is decoded
  from the whole region. The item is the only event of the iteration, and the first
  event of \<open>dissect_attribute_value_pairs\<close> when it is called at that AVP.
\<close>

theorem tagged_avp_tag:
  assumes at: "avp_at tvb pos a" and wf: "wf_avp a" and ne: "fst a \<noteq> 79"
    and tg: "tagged (avp_entry (dict env) a)"
    and val: "avp_payload a \<noteq> []"
    and off: "ws_offset s = int pos"
    and small: "int (length tvb) < 2147483648"
  shows "let e = avp_entry (dict env) a;
             b = uint (hd (avp_payload a));
             voff = int pos + int (avp_header_size a);
             vlen = int (length (avp_payload a));
             off2 = (if b \<le> 0x1F then voff + 1 else voff);
             len2 = (if b \<le> 0x1F then vlen - 1 else vlen);
             texts = avp_header_texts (dict env) a @ [LengthField vlen] @
                     (if b \<le> 0x1F then [TagText b] else []);
             item = AvpItem (int pos) (int (avp_len a))
                      (texts @ fst (avp_value env tvb e off2 len2));
             s1 = s\<lparr>ws_length := gint (ws_length s - int (avp_len a))\<rparr>
         in tvb_get_guint8 tvb voff = Inr b \<and>
            tvb_get_ptr tvb off2 len2 =
              Inr (if b \<le> 0x1F then tl (avp_payload a) else avp_payload a) \<and>
            avp_step env tvb s =
              (case snd (avp_value env tvb e off2 len2) of
                 None \<Rightarrow> Continue [item] (s1\<lparr>ws_offset := int (pos + avp_len a)\<rparr>)
               | Some ex \<Rightarrow> Stop [item] (Threw ex) s1) \<and>
            (\<forall>eap_buffer len. len \<noteq> 0 \<longrightarrow>
               (\<exists>rest. w_events (dissect_attribute_value_pairs env tvb eap_buffer (int pos) len)
                         = item # rest))"
proof -
  define e where "e = avp_entry (dict env) a"
  define b where "b = uint (hd (avp_payload a))"
  define hs where "hs = avp_header_size a"
  define voff where "voff = int pos + int hs"
  define vlen where "vlen = int (length (avp_payload a))"
  define off2 where "off2 = (if b \<le> 0x1F then voff + 1 else voff)"
  define len2 where "len2 = (if b \<le> 0x1F then vlen - 1 else vlen)"
  define texts where "texts = avp_header_texts (dict env) a @ [LengthField vlen] @
                     (if b \<le> 0x1F then [TagText b] else [])"
  define item where "item = AvpItem (int pos) (int (avp_len a))
                      (texts @ fst (avp_value env tvb e off2 len2))"
  have v: "1 \<le> length (snd a)" "length (snd a) \<le> 253" using wf by (simp_all add: wf_avp_def)
  have fits: "pos + avp_len a \<le> length tvb" using at by (simp add: avp_at_def)
  have hs: "hs \<le> avp_len a" "2 \<le> hs"
    using wf by (auto simp: hs_def avp_header_size_def avp_len_def wf_avp_def)
  have pl: "length (avp_payload a) = avp_len a - hs"
    using hs by (simp add: avp_payload_def avp_len_def hs_def)
  have pos_len: "0 < length (avp_payload a)" using val by simp
  have i: "hs - 2 < length (snd a)" using pos_len by (simp add: avp_payload_def hs_def)
  have hd: "hd (avp_payload a) = snd a ! (hs - 2)"
    using i by (simp add: avp_payload_def hs_def hd_drop_conv_nth)
  have vo: "voff = int pos + 2 + int (hs - 2)" using hs by (simp add: voff_def)
  have rd: "tvb_get_guint8 tvb voff = Inr b"
    using tvb_get_guint8_value [OF at i] by (simp add: vo b_def hd)
  have vl: "vlen = int (avp_len a) - int hs" using pl hs by (simp add: vlen_def)
  have al: "0 < vlen" "vlen < 4294967296"
    using pos_len v pl hs by (simp_all add: vlen_def avp_len_def)
  have ob: "- 2147483648 \<le> voff" "voff + 1 < 2147483648"
    using fits small hs pos_len pl by (simp_all add: voff_def)
  have sum: "off2 + len2 = int (pos + avp_len a)"
    using hs by (simp add: off2_def len2_def voff_def vl)
  have g: "gint (off2 + len2) = int (pos + avp_len a)"
    using fits small by (simp add: sum gint_id)
  have region: "tvb_get_ptr tvb off2 len2 =
              Inr (if b \<le> 0x1F then tl (avp_payload a) else avp_payload a)"
  proof (cases "b \<le> 0x1F")
    case True
    have "tvb_get_ptr tvb (int pos + 2 + int (hs - 1)) (int (length (snd a) - (hs - 1)))
            = Inr (take (length (snd a) - (hs - 1)) (drop (hs - 1) (snd a)))"
      using i by (intro tvb_get_ptr_value [OF at]) simp
    moreover have "int pos + 2 + int (hs - 1) = off2"
      using True hs by (simp add: off2_def voff_def)
    moreover have "int (length (snd a) - (hs - 1)) = len2"
      using True hs i pl by (simp add: len2_def vlen_def avp_len_def)
    moreover have "drop (hs - 1) (snd a) = tl (avp_payload a)"
    proof -
      have "hs - 1 = Suc (hs - 2)" using hs by simp
      then show ?thesis by (simp add: avp_payload_def hs_def [symmetric] tl_drop drop_Suc)
    qed
    ultimately show ?thesis using True by simp
  next
    case False
    have "tvb_get_ptr tvb (int pos + 2 + int (hs - 2)) (int (length (snd a) - (hs - 2)))
            = Inr (take (length (snd a) - (hs - 2)) (drop (hs - 2) (snd a)))"
      using i by (intro tvb_get_ptr_value [OF at]) simp
    moreover have "int (length (snd a) - (hs - 2)) = len2"
      using False hs i pl by (simp add: len2_def vlen_def avp_len_def)
    ultimately show ?thesis using False vo by (simp add: off2_def avp_payload_def hs_def)
  qed
  have step: "avp_step env tvb t =
              (case snd (avp_value env tvb e off2 len2) of
                 None \<Rightarrow> Continue [item]
                   (t\<lparr>ws_length := gint (ws_length t - int (avp_len a)),
                      ws_offset := int (pos + avp_len a)\<rparr>)
               | Some ex \<Rightarrow> Stop [item] (Threw ex)
                   (t\<lparr>ws_length := gint (ws_length t - int (avp_len a))\<rparr>))"
    if t: "ws_offset t = int pos" for t
  proof -
    obtain vt r where av: "avp_value env tvb e off2 len2 = (vt, r)"
      by (cases "avp_value env tvb e off2 len2")
    show ?thesis
      using avp_step_attribute [OF at wf ne t small, of env]
        avp_attribute_tagged [OF tg rd al ob, of env "int pos" "int (avp_len a)"
          "avp_header_texts (dict env) a"
          "t\<lparr>ws_length := gint (ws_length t - int (avp_len a))\<rparr>"]
        av g
      by (cases r; cases "b \<le> 0x1F")
         (simp_all add: hs_def [symmetric] voff_def [symmetric] vl [symmetric] e_def [symmetric]
            item_def texts_def off2_def len2_def)
  qed
  have first: "\<exists>rest. w_events (dissect_attribute_value_pairs env tvb eap_buffer (int pos) len)
                         = item # rest" if "len \<noteq> 0" for eap_buffer len
  proof (rule dissect_first_event [OF _ that])
    have "ws_offset (walker_init eap_buffer (int pos) len) = int pos"
      by (simp add: walker_init_def)
    from step [OF this]
    show "\<exists>s'. avp_step env tvb (walker_init eap_buffer (int pos) len) = Continue [item] s' \<or>
                (\<exists>r. avp_step env tvb (walker_init eap_buffer (int pos) len) = Stop [item] r s')"
      by (cases "snd (avp_value env tvb e off2 len2)") auto
  qed
  show ?thesis
    unfolding Let_def
    using rd region step [OF off] first
    unfolding e_def b_def voff_def hs_def vlen_def off2_def len2_def texts_def item_def
    by (intro conjI allI impI) assumption+
qed

theorem tagged_avp_tag_witness:
  "avp_step sample_env tagged_tvb
     \<lparr>ws_offset = 20, ws_length = 12, ws_last_eap = False, ws_eap_buffer = replicate 4096 0,
      ws_eap_seg_num = 0, ws_eap_tot_len = 0, ws_eap_tvb = None\<rparr> =
   Continue [AvpItem 20 6 [AttrText ''Tunnel-Type'' 64, LengthField 4, TagText 31,
                           ValueText [EnumText ''L2TP'' 3]]]
     \<lparr>ws_offset = 26, ws_length = 6, ws_last_eap = False, ws_eap_buffer = replicate 4096 0,
      ws_eap_seg_num = 0, ws_eap_tot_len = 0, ws_eap_tvb = None\<rparr> \<and>
   avp_step sample_env tagged_tvb
     \<lparr>ws_offset = 26, ws_length = 6, ws_last_eap = False, ws_eap_buffer = replicate 4096 0,
      ws_eap_seg_num = 0, ws_eap_tot_len = 0, ws_eap_tvb = None\<rparr> =
   Continue [AvpItem 26 6 [AttrText ''Tunnel-Type'' 64, LengthField 4,
                           ValueText [EnumText ''Unknown'' 536870915]]]
     \<lparr>ws_offset = 32, ws_length = 0, ws_last_eap = False, ws_eap_buffer = replicate 4096 0,
      ws_eap_seg_num = 0, ws_eap_tot_len = 0, ws_eap_tvb = None\<rparr>"
proof -
  let ?s0 = "\<lparr>ws_offset = 20, ws_length = 12, ws_last_eap = False, ws_eap_buffer = replicate 4096 0,
      ws_eap_seg_num = 0, ws_eap_tot_len = 0, ws_eap_tvb = None\<rparr>"
  let ?s1 = "\<lparr>ws_offset = 26, ws_length = 6, ws_last_eap = False, ws_eap_buffer = replicate 4096 0,
      ws_eap_seg_num = 0, ws_eap_tot_len = 0, ws_eap_tvb = None\<rparr>"
  let ?a = "(64, [0x1F, 0, 0, 3]) :: raw_avp"
  let ?b = "(64, [0x20, 0, 0, 3]) :: raw_avp"
  let ?e = "\<lparr>name = ''Tunnel-Type'', code = 64, encrypt = False, tagged = True,
                 type = Some Radius_integer, dissector = None, vs = Some [(3, ''L2TP'')],
                 ett = -1, hf = -1, hf64 = -1, hf_tag = -1, hf_len = -1\<rparr>"
  have small: "int (length tagged_tvb) < 2147483648" by (simp add: tagged_tvb_def)
  have ea: "avp_entry (dict sample_env) ?a = ?e"
    by (simp add: avp_entry_def sample_env_def sample_dict_def)
  have eb: "avp_entry (dict sample_env) ?b = ?e"
    by (simp add: avp_entry_def sample_env_def sample_dict_def)
  have a1: "avp_at tagged_tvb 20 ?a" by code_simp
  have a2: "wf_avp ?a" by (simp add: wf_avp_def)
  have a3: "fst ?a \<noteq> 79" by simp
  have a4: "tagged (avp_entry (dict sample_env) ?a)" by (simp add: ea)
  have a5: "avp_payload ?a \<noteq> []" by (simp add: avp_payload_def avp_header_size_def)
  have a6: "ws_offset ?s0 = int 20" by simp
  have b1: "avp_at tagged_tvb 26 ?b" by code_simp
  have b2: "wf_avp ?b" by (simp add: wf_avp_def)
  have b3: "fst ?b \<noteq> 79" by simp
  have b4: "tagged (avp_entry (dict sample_env) ?b)" by (simp add: eb)
  have b5: "avp_payload ?b \<noteq> []" by (simp add: avp_payload_def avp_header_size_def)
  have b6: "ws_offset ?s1 = int 26" by simp
  have va: "avp_value sample_env tagged_tvb ?e 23 3 = ([ValueText [EnumText ''L2TP'' 3]], None)"
    by code_simp
  have vb: "avp_value sample_env tagged_tvb ?e 28 4 =
              ([ValueText [EnumText ''Unknown'' 536870915]], None)"
    by code_simp
  have first: "avp_step sample_env tagged_tvb ?s0 =
      Continue [AvpItem 20 6 [AttrText ''Tunnel-Type'' 64, LengthField 4, TagText 31,
                           ValueText [EnumText ''L2TP'' 3]]] ?s1"
    using tagged_avp_tag [OF a1 a2 a3 a4 a5 a6 small] va
    by (simp add: Let_def ea avp_len_def avp_header_texts_def avp_payload_def
          avp_header_size_def gint_def)
  have second: "avp_step sample_env tagged_tvb ?s1 =
      Continue [AvpItem 26 6 [AttrText ''Tunnel-Type'' 64, LengthField 4,
                           ValueText [EnumText ''Unknown'' 536870915]]]
     \<lparr>ws_offset = 32, ws_length = 0, ws_last_eap = False, ws_eap_buffer = replicate 4096 0,
      ws_eap_seg_num = 0, ws_eap_tot_len = 0, ws_eap_tvb = None\<rparr>"
    using tagged_avp_tag [OF b1 b2 b3 b4 b5 b6 small] vb
    by (simp add: Let_def eb avp_len_def avp_header_texts_def avp_payload_def
          avp_header_size_def gint_def)
  show ?thesis using first second by simp
qed

subsection \<open>C9: the loop terminates\<close>

text \<open>
  C9. For every buffer and every positive AVP-region length the loop of the walker
  terminates: \<open>avp_loop\<close> is a total function (its termination proof is the measure on
  the remaining length), it begins at most \<open>(length + 2) div 3\<close> iterations, and an
  iteration that does not return subtracts the declared length, between 3 and 255, from
  the remaining length, which strictly decreases.
\<close>

theorem avp_walker_terminates:
  assumes "0 < len" and "len < 2147483648"
  shows "int (w_iterations (dissect_attribute_value_pairs env tvb eap_buffer off len))
           \<le> (len + 2) div 3 \<and>
         (\<forall>s evs s'. avp_step env tvb s = Continue evs s' \<and> 0 < ws_length s \<and>
              ws_length s < 2147483648 \<longrightarrow>
            (\<exists>avp_length. 3 \<le> avp_length \<and> avp_length \<le> 255 \<and>
               ws_length s' = ws_length s - avp_length \<and> ws_length s' < ws_length s))"
proof
  have "int (w_iterations (avp_loop env tvb (walker_init eap_buffer off len))) \<le> (len + 2) div 3"
    using avp_loop_iterations [of "walker_init eap_buffer off len" env tvb] assms
    by (simp add: walker_init_def)
  then show "int (w_iterations (dissect_attribute_value_pairs env tvb eap_buffer off len))
           \<le> (len + 2) div 3"
    using assms by (simp add: dissect_attribute_value_pairs_def Let_def split: option.splits)
next
  show "\<forall>s evs s'. avp_step env tvb s = Continue evs s' \<and> 0 < ws_length s \<and>
              ws_length s < 2147483648 \<longrightarrow>
            (\<exists>avp_length. 3 \<le> avp_length \<and> avp_length \<le> 255 \<and>
               ws_length s' = ws_length s - avp_length \<and> ws_length s' < ws_length s)"
  proof (intro allI impI)
    fix s evs s'
    assume a: "avp_step env tvb s = Continue evs s' \<and> 0 < ws_length s \<and> ws_length s < 2147483648"
    then obtain al where
      al: "3 \<le> al" "al \<le> 255" "ws_length s' = gint (ws_length s - al)"
      using avp_step_Continue_length by blast
    have "ws_length s' = ws_length s - al" using al a by (simp add: gint_id)
    then show "\<exists>avp_length. 3 \<le> avp_length \<and> avp_length \<le> 255 \<and>
               ws_length s' = ws_length s - avp_length \<and> ws_length s' < ws_length s"
      using al by (intro exI [of _ al]) simp
  qed
qed


theorem avp_walker_terminates_witness:
  "int (w_iterations (dissect_attribute_value_pairs
          \<lparr>dict = \<lparr>attrs_by_id = Map.empty, vendors_by_id = Map.empty,
                   vendors_by_name = Map.empty\<rparr>,
           shared_secret = [], authenticator = replicate 16 0, md5 = (\<lambda>x. replicate 16 0)\<rparr>
          (replicate 20 0 @ [1, 5, 0x61, 0x62, 0x63, 2, 6, 0x64, 0x65, 0x66, 0x67])
          (replicate 4096 0) 20 11)) \<le> (11 + 2) div 3 \<and>
   (\<exists>avp_length. 3 \<le> avp_length \<and> avp_length \<le> 255 \<and>
      ws_length \<lparr>ws_offset = 25, ws_length = 6, ws_last_eap = False,
                 ws_eap_buffer = replicate 4096 0, ws_eap_seg_num = 0, ws_eap_tot_len = 0,
                 ws_eap_tvb = None\<rparr> = 11 - avp_length)"
proof -
  let ?env = "\<lparr>dict = \<lparr>attrs_by_id = Map.empty, vendors_by_id = Map.empty,
                   vendors_by_name = Map.empty\<rparr>,
           shared_secret = [], authenticator = replicate 16 0, md5 = (\<lambda>x. replicate 16 0)\<rparr>"
  let ?tvb = "replicate 20 0 @ [1, 5, 0x61, 0x62, 0x63, 2, 6, 0x64, 0x65, 0x66, 0x67] :: tvbuff"
  let ?s1 = "\<lparr>ws_offset = 25, ws_length = 6, ws_last_eap = False,
                 ws_eap_buffer = replicate 4096 0, ws_eap_seg_num = 0, ws_eap_tot_len = 0,
                 ws_eap_tvb = None\<rparr>"
  have step: "avp_step ?env ?tvb (walker_init (replicate 4096 0) 20 11) =
      Continue [AvpItem 20 5 [AttrText ''Unknown-Attribute'' 1, LengthField 3,
                              ValueText [BytesText [0x61, 0x62, 0x63]]]] ?s1"
    by code_simp
  have len: "ws_length (walker_init (replicate 4096 0) 20 11) = 11"
    by (simp add: walker_init_def)
  have c: "0 < (11::int)" "(11::int) < 2147483648" by simp_all
  note t = avp_walker_terminates [OF c, of ?env ?tvb "replicate 4096 0" 20]
  have bound: "int (w_iterations (dissect_attribute_value_pairs ?env ?tvb (replicate 4096 0) 20 11))
      \<le> (11 + 2) div 3"
    using t by simp
  have "\<exists>avp_length. 3 \<le> avp_length \<and> avp_length \<le> 255 \<and>
      ws_length ?s1 = ws_length (walker_init (replicate 4096 0) 20 11) - avp_length \<and>
      ws_length ?s1 < ws_length (walker_init (replicate 4096 0) 20 11)"
    using conjunct2 [OF t, rule_format, of "walker_init (replicate 4096 0) 20 11" _ ?s1] step len
    by simp
  then show ?thesis using bound len by auto
qed

subsection \<open>C10: registering a decoder for vendor 0\<close>

text \<open>
  C10. \<open>radius_register_avp_dissector\<close> with \<open>vendor_id = 0\<close> leaves the vendor tables
  as they are and changes, in the top-level table, the entry of \<open>attribute_id\<close> only:
  an existing entry gets the decoder and keeps its other fields; otherwise a new entry
  named \<open>Unknown-Attribute-<code>\<close>, not encrypted and with no value decoder, is
  entered with the decoder. A second registration for the same code changes the decoder
  field only, so the last registration wins.
\<close>

theorem register_top_level:
  "let d1 = radius_register_avp_dissector d fresh 0 attribute_id f;
       d2 = radius_register_avp_dissector d1 fresh2 0 attribute_id g
   in vendors_by_id d1 = vendors_by_id d \<and> vendors_by_name d1 = vendors_by_name d \<and>
      (\<forall>k. attrs_by_id d1 k =
         (if k = attribute_id then
            Some (case attrs_by_id d attribute_id of
                    Some e \<Rightarrow> e\<lparr>dissector := Some f\<rparr>
                  | None \<Rightarrow>
                      fresh\<lparr>name := ''Unknown-Attribute-'' @ fmt_u (nat attribute_id),
                            code := attribute_id, encrypt := False, type := None, vs := None,
                            hf := hf no_dictionary_entry,
                            hf_len := hf_len no_dictionary_entry,
                            ett := ett no_dictionary_entry,
                            dissector := Some f\<rparr>)
          else attrs_by_id d k)) \<and>
      vendors_by_id d2 = vendors_by_id d \<and> vendors_by_name d2 = vendors_by_name d \<and>
      (\<forall>k. attrs_by_id d2 k =
         (if k = attribute_id then
            map_option (\<lambda>e. e\<lparr>dissector := Some g\<rparr>) (attrs_by_id d1 attribute_id)
          else attrs_by_id d1 k)) \<and>
      map_option dissector (attrs_by_id d2 attribute_id) = Some (Some g)"
  by (auto simp: radius_register_avp_dissector_def install_avp_dissector_def Let_def
        split: option.splits)

end
